theory Spec2Isabelle
  imports Complex_Main "HOL-Library.Word"
begin

section \<open>Outcomes of the C++ code\<close>

text \<open>
  The functions of \<^verbatim>\<open>src/grid/Grid.cc\<close> either return, throw a C++ exception, or run
  into undefined behaviour (a null \<^verbatim>\<open>shared_ptr\<close> is dereferenced, an iterator is read at or
  past \<^verbatim>\<open>end()\<close>). The model keeps the three apart: a result is \<open>Inr\<close> of the returned
  value or \<open>Inl\<close> of a \<open>failure\<close>.

  Every \<^verbatim>\<open>throw\<close> of the file is one constructor of \<open>exn\<close>. The two coordinate-system
  throws and the basis/PSF throw of \<^verbatim>\<open>Source::Source\<close> all have the C++ type
  \<^verbatim>\<open>InvalidDefinitionError\<close> and differ in their message; the model names them by
  throw site.
\<close>

datatype exn =
    FrameWithoutWcs        \<comment> \<open>"If the definition WCS is set, all frames must have a WCS."\<close>
  | FrameWithWcs           \<comment> \<open>"If the definition WCS is not set, inividual frames may not have a WCS."\<close>
  | MissingBasisOrPsf      \<comment> \<open>"All objects must have a basis if any frames do not have a PSF."\<close>
  | NotFound               \<comment> \<open>"Object or Frame with ID %d not found."\<close>
  | ValidateFailed         \<comment> \<open>whatever \<^verbatim>\<open>Object::validate()\<close> throws\<close>

datatype ub =
    NullDereference        \<comment> \<open>\<^verbatim>\<open>operator->\<close> on an empty \<^verbatim>\<open>shared_ptr\<close>\<close>
  | PastTheEnd             \<comment> \<open>an iterator or pointer read outside its array\<close>

datatype failure = Exception exn | Undefined ub

type_synonym ID = int

section \<open>\<^verbatim>\<open>find\<close>: lookup by identifier\<close>

text \<open>
  \<^verbatim>\<open>find(array, id)\<close> (Grid.cc, lines 240-265). The iterators are positions in the array;
  \<open>idf\<close> reads the member \<^verbatim>\<open>id\<close> of an element. \<^verbatim>\<open>count\<close> and \<^verbatim>\<open>step\<close> are C++ \<^verbatim>\<open>int\<close>s that
  never become negative (\<^verbatim>\<open>step < count\<close> whenever \<^verbatim>\<open>count > 0\<close>), so they are naturals here.
  Each read through an iterator is written with its range check: a read at or beyond the
  size of the array is undefined behaviour in the source.
\<close>

function find_loop :: "('a \<Rightarrow> ID) \<Rightarrow> 'a list \<Rightarrow> ID \<Rightarrow> nat \<Rightarrow> nat \<Rightarrow> failure + nat" where
  "find_loop idf array ident iter1 count =
     (if 0 < count then
        (let step = count div 2;
             iter2 = iter1 + step
         in if length array \<le> iter2 then Inl (Undefined PastTheEnd)
            else if idf (array ! iter2) < ident
                 then find_loop idf array ident (Suc iter2) (count - (step + 1))
                 else find_loop idf array ident iter1 step)
      else Inr iter1)"
  by pat_completeness auto
termination
  by (relation "measure (\<lambda>(idf, array, ident, iter1, count). count)") auto

definition find_id :: "('a \<Rightarrow> ID) \<Rightarrow> 'a list \<Rightarrow> ID \<Rightarrow> failure + 'a" where
  "find_id idf array ident =
     (case find_loop idf array ident 0 (length array) of
        Inl f \<Rightarrow> Inl f
      | Inr iter1 \<Rightarrow>
          if length array \<le> iter1 then Inl (Undefined PastTheEnd)
          else if idf (array ! iter1) \<noteq> ident then Inl (Exception NotFound)
          else Inr (array ! iter1))"


section \<open>Data model\<close>

text \<open>
  The three kinds of parameter component are the values of the template parameter
  \<^verbatim>\<open>ParameterType E\<close>.
\<close>

datatype ParameterType = POSITION | RADIUS | ELLIPTICITY

type_synonym FilterId = int
type_synonym scalar = real

text \<open>
  A \<^verbatim>\<open>shared_ptr\<close> to a parameter component is \<open>ref option\<close>: \<open>None\<close> is the empty
  pointer, \<open>Some a\<close> points to the component stored at position \<open>a\<close> of the store of its
  kind. Two pointers are the same instance exactly when the positions are equal. The
  values are \<^verbatim>\<open>double\<close>s that the code only copies, never computes with.
\<close>

type_synonym ref = nat

record definition_ParameterComponent =
  dc_value :: "scalar list"
  dc_active :: bool

record grid_ParameterComponent =
  gc_value :: "scalar list"
  gc_active :: bool
  gc_offset :: int

text \<open>
  The coordinate systems, point-spread functions and bases are services of other
  packages. The model keeps them symbolic: each is named by a tag, and each call the
  code makes on them is recorded as a term.
\<close>

datatype Wcs = Wcs nat
datatype Psf = Psf nat

datatype AffineTransform =
    IdentityTransform
      \<comment> \<open>the default \<^verbatim>\<open>_transform()\<close>\<close>
  | SkyToPixel_times_PixelToSky Wcs Wcs "scalar list"
      \<comment> \<open>\<^verbatim>\<open>frame.getWcs()->linearizeSkyToPixel(point) * wcs->linearizePixelToSky(point)\<close>\<close>

datatype LocalPsf = LocalPsf Psf AffineTransform "scalar list"
  \<comment> \<open>\<^verbatim>\<open>frame.getPsf()->getLocalPsf(_transform(point))\<close>\<close>

datatype Basis = Basis nat | Convolved Basis LocalPsf
  \<comment> \<open>\<^verbatim>\<open>object.getBasis()->convolve(_localPsf)\<close>\<close>

text \<open>
  The pixel and coefficient counters are C++ \<^verbatim>\<open>int\<close>s that add up sizes read from the
  input (\<^verbatim>\<open>_pixelCount += newFrame->getPixelCount()\<close>, line 116, and
  \<^verbatim>\<open>_coefficientCount += newObject->getCoefficientCount()\<close>, line 127): 32 bits in two's
  complement, whose \<open>+\<close> wraps around; \<open>sint\<close> reads the signed value.
\<close>

type_synonym cint = "32 word"

record FrameBase =
  frame_id :: ID
  filterId :: FilterId
  footprint_npix :: cint
  frame_psf :: "Psf option"
  frame_wcs :: "Wcs option"

record grid_Frame = FrameBase +
  pixelOffset :: cint
  pixelCount :: cint
  filterIndex :: int
  frameIndex :: int

record ObjectBase =
  object_id :: ID
  basis :: "Basis option"

record definition_Object = ObjectBase +
  d_component :: "ParameterType \<Rightarrow> ref option"

text \<open>
  \<^verbatim>\<open>sources._first\<close> and \<^verbatim>\<open>sources._last\<close> of a grid Object point into the source array of
  the Grid; they are positions in that array.
\<close>

record grid_Object = ObjectBase +
  g_component :: "ParameterType \<Rightarrow> ref option"
  coefficientOffset :: cint
  coefficientCount :: cint
  sources_first :: nat
  sources_last :: nat

text \<open>
  A Source holds C++ references to its Frame and its Object in the arrays of the Grid:
  the positions \<open>source_frame\<close> and \<open>source_object\<close>.
\<close>

record Source =
  source_frame :: nat
  source_object :: nat
  source_transform :: AffineTransform
  source_localPsf :: "LocalPsf option"
  source_basis :: "Basis option"

text \<open>
  A Definition: its frames and objects in the iteration order of \<^verbatim>\<open>FrameSet\<close> and
  \<^verbatim>\<open>ObjectSet\<close>, and the parameter components its objects point to, one store per kind.
\<close>

record Definition =
  def_wcs :: "Wcs option"
  def_frames :: "FrameBase list"
  def_objects :: "definition_Object list"
  def_heap :: "ParameterType \<Rightarrow> definition_ParameterComponent list"

text \<open>
  A Grid. \<open>objectData\<close>, \<open>frameData\<close> and \<open>sourceData\<close> are the sizes of the three raw
  buffers, counted in elements. Each array is the list of the elements constructed in
  its buffer together with the cursor \<^verbatim>\<open>_last\<close>, counted from \<^verbatim>\<open>_first\<close>.
  \<open>ptrVec E\<close> is \<^verbatim>\<open>positions._ptrVec\<close>, \<^verbatim>\<open>radii._ptrVec\<close> or \<^verbatim>\<open>ellipticities._ptrVec\<close>; \<open>g_heap E\<close>
  holds every \<^verbatim>\<open>grid::ParameterComponent<E>\<close> allocated with \<^verbatim>\<open>new\<close>, in allocation order.
\<close>

record Grid =
  filterCount :: int
  g_coefficientCount :: cint
  g_pixelCount :: cint
  parameterCount :: int
  objectData :: nat
  frameData :: nat
  sourceData :: nat
  g_wcs :: "Wcs option"
  filters :: "FilterId \<rightharpoonup> int"
  frames :: "grid_Frame list"
  frames_last :: nat
  objects :: "grid_Object list"
  objects_last :: nat
  sources :: "Source list"
  g_sources_last :: nat
  ptrVec :: "ParameterType \<Rightarrow> ref list"
  g_heap :: "ParameterType \<Rightarrow> grid_ParameterComponent list"

text \<open>
  What Grid.cc uses from headers and source files that are not part of the sources at
  hand is a parameter of the model:
  \<^item> \<open>SIZE E\<close> is \<^verbatim>\<open>grid::ParameterComponent<E>::SIZE\<close>;
  \<^item> \<open>validate\<close> is \<^verbatim>\<open>grid::Object::validate()\<close>, which may read the object and the
    components it points to, and throws when it answers \<open>False\<close>;
  \<^item> \<open>getCoefficientCount\<close> is what \<^verbatim>\<open>grid::Object::getCoefficientCount()\<close> returns for
    an object constructed from a definition Object with the given basis.
\<close>

record externals =
  SIZE :: "ParameterType \<Rightarrow> nat"
  validate :: "(ParameterType \<Rightarrow> grid_ParameterComponent list) \<Rightarrow> grid_Object \<Rightarrow> bool"
  getCoefficientCount :: "Basis option \<Rightarrow> cint"

section \<open>Constructors of the grid elements\<close>

text \<open>
  Modelled from the spec: the constructor \<^verbatim>\<open>grid::ParameterComponent<E>(definition
  component, offset)\<close> and the factory \<^verbatim>\<open>definition::ParameterComponent<E>::make(value,
  active)\<close>, both declared outside the sources at hand; the spec has them copy the value
  and the active flag.
\<close>

definition grid_ParameterComponent_ctor ::
  "definition_ParameterComponent \<Rightarrow> int \<Rightarrow> grid_ParameterComponent" where
  "grid_ParameterComponent_ctor dp off =
     \<lparr>gc_value = dc_value dp, gc_active = dc_active dp, gc_offset = off\<rparr>"

definition make :: "scalar list \<Rightarrow> bool \<Rightarrow> definition_ParameterComponent" where
  "make v a = \<lparr>dc_value = v, dc_active = a\<rparr>"

text \<open>
  \<^verbatim>\<open>Frame::Frame\<close> (Grid.cc, lines 163-166): the base is copied and the pixel count is
  read from the footprint.
\<close>

definition Frame_ctor :: "FrameBase \<Rightarrow> cint \<Rightarrow> int \<Rightarrow> int \<Rightarrow> grid_Frame" where
  "Frame_ctor def pixelOffset' filterIndex' frameIndex' =
     \<lparr>frame_id = frame_id def, filterId = filterId def, footprint_npix = footprint_npix def,
      frame_psf = frame_psf def, frame_wcs = frame_wcs def,
      pixelOffset = pixelOffset', pixelCount = footprint_npix def,
      filterIndex = filterIndex', frameIndex = frameIndex'\<rparr>"

text \<open>
  Modelled from the spec: the constructor of \<^verbatim>\<open>grid::Object\<close>, defined outside the sources
  at hand. It copies the base of the definition Object and records the coefficient
  offset; the component pointers are empty until \<^verbatim>\<open>transferComponents\<close> sets them, and the
  source range is set by \<^verbatim>\<open>initializeGrid\<close>.
\<close>

definition Object_ctor :: "externals \<Rightarrow> definition_Object \<Rightarrow> cint \<Rightarrow> grid_Object" where
  "Object_ctor ext def coefficientOffset' =
     \<lparr>object_id = object_id def, basis = basis def,
      g_component = (\<lambda>E. None),
      coefficientOffset = coefficientOffset',
      coefficientCount = getCoefficientCount ext (basis def),
      sources_first = 0, sources_last = 0\<rparr>"

subsection \<open>\<^verbatim>\<open>Source::Source\<close>\<close>

text \<open>
  \<^verbatim>\<open>object.getPosition()->getValue()\<close>: the position pointer of the object is dereferenced
  without a test.
\<close>

definition getPosition_getValue ::
  "grid_ParameterComponent list \<Rightarrow> grid_Object \<Rightarrow> failure + scalar list" where
  "getPosition_getValue heap object =
     (case g_component object POSITION of
        None \<Rightarrow> Inl (Undefined NullDereference)
      | Some p \<Rightarrow> Inr (gc_value (heap ! p)))"

text \<open>Lines 196-212: the coordinate-system checks and the transform.\<close>

definition Source_transform ::
  "grid_ParameterComponent list \<Rightarrow> grid_Frame \<Rightarrow> grid_Object \<Rightarrow> Wcs option \<Rightarrow> failure + AffineTransform" where
  "Source_transform heap frame object wcs =
     (case wcs of
        Some w \<Rightarrow>
          (case frame_wcs frame of
             None \<Rightarrow> Inl (Exception FrameWithoutWcs)
           | Some fw \<Rightarrow>
               (case getPosition_getValue heap object of
                  Inl f \<Rightarrow> Inl f
                | Inr point \<Rightarrow> Inr (SkyToPixel_times_PixelToSky fw w point)))
      | None \<Rightarrow>
          (case frame_wcs frame of
             Some fw \<Rightarrow> Inl (Exception FrameWithWcs)
           | None \<Rightarrow> Inr IdentityTransform))"

text \<open>Lines 213-215: the localized PSF.\<close>

definition Source_localPsf ::
  "grid_ParameterComponent list \<Rightarrow> grid_Frame \<Rightarrow> grid_Object \<Rightarrow> AffineTransform \<Rightarrow> failure + LocalPsf option" where
  "Source_localPsf heap frame object transform =
     (case frame_psf frame of
        None \<Rightarrow> Inr None
      | Some psf \<Rightarrow>
          (case getPosition_getValue heap object of
             Inl f \<Rightarrow> Inl f
           | Inr point \<Rightarrow> Inr (Some (LocalPsf psf transform point))))"

text \<open>Lines 216-229: the basis.\<close>

definition Source_basis ::
  "grid_Frame \<Rightarrow> grid_Object \<Rightarrow> LocalPsf option \<Rightarrow> failure + Basis option" where
  "Source_basis frame object localPsf =
     (case basis object of
        Some b \<Rightarrow>
          (case localPsf of
             Some lp \<Rightarrow> Inr (Some (Convolved b lp))
           | None \<Rightarrow> Inr (Some b))
      | None \<Rightarrow>
          (case frame_psf frame of
             None \<Rightarrow> Inl (Exception MissingBasisOrPsf)
           | Some psf \<Rightarrow> Inr None))"

definition Source_ctor ::
  "grid_ParameterComponent list \<Rightarrow> nat \<Rightarrow> grid_Frame \<Rightarrow> nat \<Rightarrow> grid_Object \<Rightarrow> Wcs option \<Rightarrow> failure + Source" where
  "Source_ctor heap j frame i object wcs =
     (case Source_transform heap frame object wcs of
        Inl f \<Rightarrow> Inl f
      | Inr transform \<Rightarrow>
          (case Source_localPsf heap frame object transform of
             Inl f \<Rightarrow> Inl f
           | Inr localPsf \<Rightarrow>
               (case Source_basis frame object localPsf of
                  Inl f \<Rightarrow> Inl f
                | Inr b \<Rightarrow>
                    Inr \<lparr>source_frame = j, source_object = i, source_transform = transform,
                         source_localPsf = localPsf, source_basis = b\<rparr>)))"


section \<open>Definition \<rightarrow> Grid\<close>

subsection \<open>\<^verbatim>\<open>transferComponents<E>(Definition const &, Grid &, Container &)\<close>\<close>

text \<open>
  Lines 63-73, for a non-empty pointer \<open>dp\<close> whose component is \<open>pc\<close>:
  \<^verbatim>\<open>unique.insert(item)\<close> and, when the key is new, the allocation of the grid component.
  The result is the grid pointer \<^verbatim>\<open>r.first->second\<close> with the new map and Grid.
\<close>

definition unique_insert_DG ::
  "nat \<Rightarrow> ParameterType \<Rightarrow> definition_ParameterComponent \<Rightarrow> ref \<Rightarrow> (ref \<rightharpoonup> ref) \<times> Grid
     \<Rightarrow> ref \<times> (ref \<rightharpoonup> ref) \<times> Grid" where
  "unique_insert_DG sz E pc dp s =
     (case s of (unique, output) \<Rightarrow>
        (case unique dp of
           Some gp \<Rightarrow> (gp, unique, output)
         | None \<Rightarrow>
             (let gp = length (g_heap output E) in
              if dc_active pc then
                (gp, unique(dp \<mapsto> gp),
                 output\<lparr>g_heap := (g_heap output)
                            (E := g_heap output E @ [grid_ParameterComponent_ctor pc (parameterCount output)]),
                        parameterCount := parameterCount output + int sz,
                        ptrVec := (ptrVec output)(E := ptrVec output E @ [gp])\<rparr>)
              else
                (gp, unique(dp \<mapsto> gp),
                 output\<lparr>g_heap := (g_heap output)
                            (E := g_heap output E @ [grid_ParameterComponent_ctor pc (- 1)])\<rparr>))))"

text \<open>
  The loop of lines 60-77 walks \<^verbatim>\<open>gi\<close> over the grid objects and \<^verbatim>\<open>di\<close> over the definition
  objects side by side; it ends when \<^verbatim>\<open>gi\<close> reaches the end. The grid objects are
  returned updated.
\<close>

fun transferComponents_DG_loop ::
  "nat \<Rightarrow> ParameterType \<Rightarrow> definition_ParameterComponent list \<Rightarrow> definition_Object list \<Rightarrow> grid_Object list
     \<Rightarrow> (ref \<rightharpoonup> ref) \<times> Grid \<Rightarrow> failure + (grid_Object list \<times> (ref \<rightharpoonup> ref) \<times> Grid)" where
  "transferComponents_DG_loop sz E heap dis [] s = Inr ([], s)"
| "transferComponents_DG_loop sz E heap [] (g # gis) s = Inl (Undefined PastTheEnd)"
| "transferComponents_DG_loop sz E heap (d # dis) (g # gis) s =
     (case d_component d E of
        None \<Rightarrow>
          (case transferComponents_DG_loop sz E heap dis gis s of
             Inl f \<Rightarrow> Inl f
           | Inr (gis', s') \<Rightarrow> Inr (g # gis', s'))
      | Some dp \<Rightarrow>
          (case unique_insert_DG sz E (heap ! dp) dp s of
             (gp, s1) \<Rightarrow>
               (case transferComponents_DG_loop sz E heap dis gis s1 of
                  Inl f \<Rightarrow> Inl f
                | Inr (gis', s') \<Rightarrow> Inr (g\<lparr>g_component := (g_component g)(E := Some gp)\<rparr> # gis', s'))))"

definition transferComponents_DG :: "externals \<Rightarrow> ParameterType \<Rightarrow> Definition \<Rightarrow> Grid \<Rightarrow> failure + Grid" where
  "transferComponents_DG ext E input output =
     (case transferComponents_DG_loop (SIZE ext E) E (def_heap input E) (def_objects input) (objects output)
             (Map.empty, output) of
        Inl f \<Rightarrow> Inl f
      | Inr (gis', unique, output') \<Rightarrow> Inr (output'\<lparr>objects := gis'\<rparr>))"

subsection \<open>\<^verbatim>\<open>initializeGrid\<close> and \<^verbatim>\<open>destroyGrid\<close>\<close>

text \<open>
  A placement \<^verbatim>\<open>new (array._last++) T(...)\<close> advances the cursor before the constructor
  runs; the element is in the array once the constructor has returned.

  Lines 104-118: the frames.
\<close>

fun initializeGrid_frames :: "FrameBase list \<Rightarrow> int \<Rightarrow> Grid \<Rightarrow> int \<times> Grid" where
  "initializeGrid_frames [] frameCount output = (frameCount, output)"
| "initializeGrid_frames (i # rest) frameCount output =
     (let (r_second, output1) =
            (case filters output (filterId i) of
               Some idx \<Rightarrow> (idx, output)
             | None \<Rightarrow> (filterCount output,
                         output\<lparr>filters := (filters output)(filterId i \<mapsto> filterCount output),
                                filterCount := filterCount output + 1\<rparr>));
          output2 = output1\<lparr>frames_last := frames_last output1 + 1\<rparr>;
          newFrame = Frame_ctor i (g_pixelCount output2) r_second frameCount;
          output3 = output2\<lparr>frames := frames output2 @ [newFrame],
                            g_pixelCount := g_pixelCount output2 + pixelCount newFrame\<rparr>
      in initializeGrid_frames rest (frameCount + 1) output3)"

text \<open>Lines 119-128: the objects.\<close>

fun initializeGrid_objects :: "externals \<Rightarrow> definition_Object list \<Rightarrow> Grid \<Rightarrow> Grid" where
  "initializeGrid_objects ext [] output = output"
| "initializeGrid_objects ext (i # rest) output =
     (let output1 = output\<lparr>objects_last := objects_last output + 1\<rparr>;
          newObject = Object_ctor ext i (g_coefficientCount output1);
          output2 = output1\<lparr>objects := objects output1 @ [newObject],
                            g_coefficientCount := g_coefficientCount output1 + coefficientCount newObject\<rparr>
      in initializeGrid_objects ext rest output2)"

text \<open>
  Lines 139-145: the sources of the object at position \<open>i\<close>, one for each frame position
  in \<open>js\<close>. A failure comes with the Grid as it is when the constructor fails.
\<close>

fun initializeGrid_sources :: "nat \<Rightarrow> nat list \<Rightarrow> Grid \<Rightarrow> failure \<times> Grid + Grid" where
  "initializeGrid_sources i [] output = Inr output"
| "initializeGrid_sources i (j # js) output =
     (let output1 = output\<lparr>g_sources_last := g_sources_last output + 1\<rparr> in
      case Source_ctor (g_heap output1 POSITION) j (frames output1 ! j) i (objects output1 ! i) (g_wcs output1) of
        Inl f \<Rightarrow> Inl (f, output1)
      | Inr src \<Rightarrow> initializeGrid_sources i js (output1\<lparr>sources := sources output1 @ [src]\<rparr>))"

text \<open>
  Lines 137-146: the body of the loop over the objects, for the object at position \<open>i\<close>:
  validation, then one source for each frame, with the source range of the object
  recorded before and after.
\<close>

definition initializeGrid_object :: "externals \<Rightarrow> nat \<Rightarrow> Grid \<Rightarrow> failure \<times> Grid + Grid" where
  "initializeGrid_object ext i output =
     (if \<not> validate ext (g_heap output) (objects output ! i) then Inl (Exception ValidateFailed, output)
      else
        (let output1 = output\<lparr>objects := (objects output)
                                 [i := (objects output ! i)\<lparr>sources_first := g_sources_last output\<rparr>]\<rparr> in
         case initializeGrid_sources i [0..<frames_last output1] output1 of
           Inl x \<Rightarrow> Inl x
         | Inr output2 \<Rightarrow>
             Inr (output2\<lparr>objects := (objects output2)
                                  [i := (objects output2 ! i)\<lparr>sources_last := g_sources_last output2\<rparr>]\<rparr>)))"

text \<open>Lines 132-147: the loop over the object positions.\<close>

fun initializeGrid_validate_sources :: "externals \<Rightarrow> nat list \<Rightarrow> Grid \<Rightarrow> failure \<times> Grid + Grid" where
  "initializeGrid_validate_sources ext [] output = Inr output"
| "initializeGrid_validate_sources ext (i # rest) output =
     (case initializeGrid_object ext i output of
        Inl x \<Rightarrow> Inl x
      | Inr output' \<Rightarrow> initializeGrid_validate_sources ext rest output')"

text \<open>
  Lines 103-131 of the \<^verbatim>\<open>try\<close> block: the frames, the objects and the three transfers. The
  result is the Grid as it is when the loop over the objects (line 132) begins.
\<close>

definition initializeGrid_registered :: "externals \<Rightarrow> Definition \<Rightarrow> Grid \<Rightarrow> failure \<times> Grid + Grid" where
  "initializeGrid_registered ext input output =
     (case initializeGrid_frames (def_frames input) 0 output of
        (frameCount, output1) \<Rightarrow>
          (let output2 = initializeGrid_objects ext (def_objects input) output1 in
           case transferComponents_DG ext POSITION input output2 of
             Inl f \<Rightarrow> Inl (f, output2)
           | Inr output3 \<Rightarrow>
               (case transferComponents_DG ext RADIUS input output3 of
                  Inl f \<Rightarrow> Inl (f, output3)
                | Inr output4 \<Rightarrow>
                    (case transferComponents_DG ext ELLIPTICITY input output4 of
                       Inl f \<Rightarrow> Inl (f, output4)
                     | Inr output5 \<Rightarrow> Inr output5))))"

text \<open>The body of the \<^verbatim>\<open>try\<close> block, lines 103-147.\<close>

definition initializeGrid_try :: "externals \<Rightarrow> Definition \<Rightarrow> Grid \<Rightarrow> failure \<times> Grid + Grid" where
  "initializeGrid_try ext input output =
     (case initializeGrid_registered ext input output of
        Inl x \<Rightarrow> Inl x
      | Inr output5 \<Rightarrow> initializeGrid_validate_sources ext [0..<objects_last output5] output5)"

text \<open>
  \<^verbatim>\<open>destroyGrid\<close> (lines 155-159) runs the destructor on every slot from \<^verbatim>\<open>_first\<close> up to
  the cursor \<^verbatim>\<open>_last\<close>: the sources, then the objects, then the frames. The model records
  which slot of which array each destructor call is applied to.
\<close>

datatype destroyed = DestroySource nat | DestroyObject nat | DestroyFrame nat

definition destroyGrid :: "Grid \<Rightarrow> destroyed list" where
  "destroyGrid g =
     map DestroySource [0..<g_sources_last g] @
     map DestroyObject [0..<objects_last g] @
     map DestroyFrame [0..<frames_last g]"

text \<open>
  \<^verbatim>\<open>initializeGrid\<close> (lines 94-153). The three cursors start at the start of their
  buffers. \<^verbatim>\<open>catch (...)\<close> catches a C++ exception, runs \<^verbatim>\<open>destroyGrid\<close> and throws the
  exception again; undefined behaviour is not an exception and nothing is known after it.
\<close>

definition initializeGrid :: "externals \<Rightarrow> Definition \<Rightarrow> Grid \<Rightarrow> failure \<times> destroyed list + Grid" where
  "initializeGrid ext input output =
     (case initializeGrid_try ext input
             (output\<lparr>objects := [], objects_last := 0, frames := [], frames_last := 0,
                     sources := [], g_sources_last := 0\<rparr>) of
        Inr g \<Rightarrow> Inr g
      | Inl (Exception e, g) \<Rightarrow> Inl (Exception e, destroyGrid g)
      | Inl (Undefined u, g) \<Rightarrow> Inl (Undefined u, []))"

text \<open>
  \<^verbatim>\<open>Grid::Grid(Definition const &)\<close> (lines 270-282): the counters are zero, the three
  buffers have room for as many objects, frames and frames times objects as the
  Definition has, and the coordinate system is cloned when there is one. When
  \<^verbatim>\<open>initializeGrid\<close> throws, the constructor throws and there is no Grid.
\<close>

definition Grid_members :: "Definition \<Rightarrow> Grid" where
  "Grid_members definition =
     \<lparr>filterCount = 0, g_coefficientCount = 0, g_pixelCount = 0, parameterCount = 0,
      objectData = length (def_objects definition),
      frameData = length (def_frames definition),
      sourceData = length (def_frames definition) * length (def_objects definition),
      g_wcs = def_wcs definition,
      filters = Map.empty,
      frames = [], frames_last = 0, objects = [], objects_last = 0,
      sources = [], g_sources_last = 0,
      ptrVec = (\<lambda>E. []), g_heap = (\<lambda>E. [])\<rparr>"

definition Grid_ctor :: "externals \<Rightarrow> Definition \<Rightarrow> failure \<times> destroyed list + Grid" where
  "Grid_ctor ext definition = initializeGrid ext definition (Grid_members definition)"

section \<open>Grid \<rightarrow> Definition\<close>

text \<open>
  Modelled from the spec: \<^verbatim>\<open>detail::ParameterComponentTraits<E>::readParameters\<close>, declared
  outside the sources at hand: it reads \<^verbatim>\<open>SIZE\<close> scalars starting at the given position
  of the parameter buffer. The buffer is a raw \<^verbatim>\<open>double const *\<close>; the model gives it its
  length, and a read outside it is undefined.
\<close>

definition readParameters :: "nat \<Rightarrow> scalar list \<Rightarrow> int \<Rightarrow> failure + scalar list" where
  "readParameters sz paramIter off =
     (if 0 \<le> off \<and> nat off + sz \<le> length paramIter
      then Inr (take sz (drop (nat off) paramIter))
      else Inl (Undefined PastTheEnd))"

text \<open>
  Lines 35-45 of \<^verbatim>\<open>transferComponents<E>(Grid const &, Definition &, double const *)\<close>, for
  a non-empty pointer \<open>gp\<close> whose component is \<open>pc\<close>. \<open>paramIter\<close> is \<open>None\<close> for the null
  pointer.
\<close>

definition unique_insert_GD ::
  "nat \<Rightarrow> ParameterType \<Rightarrow> scalar list option \<Rightarrow> grid_ParameterComponent \<Rightarrow> ref
     \<Rightarrow> (ref \<rightharpoonup> ref) \<times> Definition \<Rightarrow> failure + ref \<times> (ref \<rightharpoonup> ref) \<times> Definition" where
  "unique_insert_GD sz E paramIter pc gp s =
     (case s of (unique, output) \<Rightarrow>
        (case unique gp of
           Some dp \<Rightarrow> Inr (dp, unique, output)
         | None \<Rightarrow>
             (let dp = length (def_heap output E);
                  new = make (gc_value pc) (gc_active pc)
              in case (case paramIter of
                         None \<Rightarrow> Inr new
                       | Some buf \<Rightarrow>
                           if dc_active new
                           then (case readParameters sz buf (gc_offset pc) of
                                   Inl f \<Rightarrow> Inl f
                                 | Inr v \<Rightarrow> Inr (new\<lparr>dc_value := v\<rparr>))
                           else Inr new) of
                   Inl f \<Rightarrow> Inl f
                 | Inr c \<Rightarrow>
                     Inr (dp, unique(gp \<mapsto> dp),
                          output\<lparr>def_heap := (def_heap output)(E := def_heap output E @ [c])\<rparr>))))"

fun transferComponents_GD_loop ::
  "nat \<Rightarrow> ParameterType \<Rightarrow> scalar list option \<Rightarrow> grid_ParameterComponent list \<Rightarrow> grid_Object list
     \<Rightarrow> definition_Object list \<Rightarrow> (ref \<rightharpoonup> ref) \<times> Definition
     \<Rightarrow> failure + (definition_Object list \<times> (ref \<rightharpoonup> ref) \<times> Definition)" where
  "transferComponents_GD_loop sz E paramIter heap [] dis s = Inr (dis, s)"
| "transferComponents_GD_loop sz E paramIter heap (g # gis) [] s = Inl (Undefined PastTheEnd)"
| "transferComponents_GD_loop sz E paramIter heap (g # gis) (d # dis) s =
     (case g_component g E of
        None \<Rightarrow>
          (case transferComponents_GD_loop sz E paramIter heap gis dis s of
             Inl f \<Rightarrow> Inl f
           | Inr (dis', s') \<Rightarrow> Inr (d # dis', s'))
      | Some gp \<Rightarrow>
          (case unique_insert_GD sz E paramIter (heap ! gp) gp s of
             Inl f \<Rightarrow> Inl f
           | Inr (dp, s1) \<Rightarrow>
               (case transferComponents_GD_loop sz E paramIter heap gis dis s1 of
                  Inl f \<Rightarrow> Inl f
                | Inr (dis', s') \<Rightarrow> Inr (d\<lparr>d_component := (d_component d)(E := Some dp)\<rparr> # dis', s'))))"

definition transferComponents_GD ::
  "externals \<Rightarrow> ParameterType \<Rightarrow> Grid \<Rightarrow> Definition \<Rightarrow> scalar list option \<Rightarrow> failure + Definition" where
  "transferComponents_GD ext E input output paramIter =
     (case transferComponents_GD_loop (SIZE ext E) E paramIter (g_heap input E) (objects input) (def_objects output)
             (Map.empty, output) of
        Inl f \<Rightarrow> Inl f
      | Inr (dis', unique, output') \<Rightarrow> Inr (output'\<lparr>def_objects := dis'\<rparr>))"

text \<open>
  Modelled from the spec: \<^verbatim>\<open>Definition::FrameSet\<close> and \<^verbatim>\<open>Definition::ObjectSet\<close>, declared
  outside the sources at hand: sets keyed by identifier and iterated in ascending order
  of identifier. \<^verbatim>\<open>insert\<close> leaves the set as it is when the identifier is already there.
\<close>

fun set_insert :: "('a \<Rightarrow> ID) \<Rightarrow> 'a \<Rightarrow> 'a list \<Rightarrow> 'a list" where
  "set_insert idf x [] = [x]"
| "set_insert idf x (y # ys) =
     (if idf x < idf y then x # y # ys
      else if idf x = idf y then y # ys
      else y # set_insert idf x ys)"

text \<open>
  Modelled from the spec: the conversions \<^verbatim>\<open>definition::Frame(grid::Frame const &)\<close> and
  \<^verbatim>\<open>definition::Object(grid::Object const &)\<close>, defined outside the sources at hand. They
  copy the base; the component pointers of the new definition Object are empty until
  \<^verbatim>\<open>transferComponents\<close> sets them.
\<close>

definition definition_Frame :: "grid_Frame \<Rightarrow> FrameBase" where
  "definition_Frame f = FrameBase.truncate f"

definition definition_Object :: "grid_Object \<Rightarrow> definition_Object" where
  "definition_Object ob = \<lparr>object_id = object_id ob, basis = basis ob, d_component = (\<lambda>E. None)\<rparr>"

text \<open>
  \<^verbatim>\<open>Initializer::makeDefinition\<close> (lines 80-92). \<^verbatim>\<open>grid.getWcs()->clone()\<close> dereferences the
  coordinate system of the Grid without a test.
\<close>

definition makeDefinition :: "externals \<Rightarrow> Grid \<Rightarrow> scalar list option \<Rightarrow> failure + Definition" where
  "makeDefinition ext grid paramIter =
     (case g_wcs grid of
        None \<Rightarrow> Inl (Undefined NullDereference)
      | Some w \<Rightarrow>
          (let result0 = \<lparr>def_wcs = Some w, def_frames = [], def_objects = [], def_heap = (\<lambda>E. [])\<rparr>;
               result1 = result0\<lparr>def_frames :=
                           foldl (\<lambda>fs i. set_insert frame_id (definition_Frame i) fs) [] (frames grid)\<rparr>;
               result2 = result1\<lparr>def_objects :=
                           foldl (\<lambda>os i. set_insert object_id (definition_Object i) os) [] (objects grid)\<rparr>
           in case transferComponents_GD ext POSITION grid result2 paramIter of
                Inl f \<Rightarrow> Inl f
              | Inr result3 \<Rightarrow>
                  (case transferComponents_GD ext RADIUS grid result3 paramIter of
                     Inl f \<Rightarrow> Inl f
                   | Inr result4 \<Rightarrow> transferComponents_GD ext ELLIPTICITY grid result4 paramIter)))"


section \<open>Predicates of the statements\<close>

text \<open>
  The deduplication map \<^verbatim>\<open>unique\<close> of a transfer is sound for a target store of \<open>n\<close>
  components when it is injective and its values are exactly the positions of the store.
\<close>

definition dedup_inv :: "(ref \<rightharpoonup> ref) \<Rightarrow> nat \<Rightarrow> bool" where
  "dedup_inv U n = (inj_on U (dom U) \<and> ran U = {..<n})"

text \<open>
  \<open>layout p sz cs q\<close>: walking the components \<open>cs\<close> in order with a running parameter count
  that starts at \<open>p\<close>, each active one has the running count as its offset and advances
  it by \<open>sz\<close>, each inactive one has the offset \<open>- 1\<close> and leaves it, and the count ends at \<open>q\<close>.
\<close>

fun layout :: "int \<Rightarrow> nat \<Rightarrow> grid_ParameterComponent list \<Rightarrow> int \<Rightarrow> bool" where
  "layout p sz [] q = (p = q)"
| "layout p sz (c # cs) q =
     (if gc_active c then gc_offset c = p \<and> layout (p + int sz) sz cs q
      else gc_offset c = - 1 \<and> layout p sz cs q)"

text \<open>The positions of the active components of a store that starts at position \<open>n\<close>.\<close>

fun active_refs :: "nat \<Rightarrow> grid_ParameterComponent list \<Rightarrow> ref list" where
  "active_refs n [] = []"
| "active_refs n (c # cs) = (if gc_active c then n # active_refs (Suc n) cs else active_refs (Suc n) cs)"




text \<open>
  \<open>same_but_component E g g'\<close>: the grid Object \<open>g'\<close> is \<open>g\<close> but for its component pointer
  of kind \<open>E\<close>. \<open>transfer_frame E G G'\<close>: the Grid \<open>G'\<close> is \<open>G\<close> but for the store and the
  container of kind \<open>E\<close> and the parameter count.
\<close>

definition same_but_component :: "ParameterType \<Rightarrow> grid_Object \<Rightarrow> grid_Object \<Rightarrow> bool" where
  "same_but_component E g g' =
     (g' = g\<lparr>g_component := g_component g'\<rparr> \<and> (\<forall>E'. E' \<noteq> E \<longrightarrow> g_component g' E' = g_component g E'))"

definition transfer_frame :: "ParameterType \<Rightarrow> Grid \<Rightarrow> Grid \<Rightarrow> bool" where
  "transfer_frame E G G' =
     (G' = G\<lparr>g_heap := g_heap G', parameterCount := parameterCount G', ptrVec := ptrVec G'\<rparr> \<and>
      (\<forall>E'. E' \<noteq> E \<longrightarrow> g_heap G' E' = g_heap G E' \<and> ptrVec G' E' = ptrVec G E'))"

text \<open>
  \<open>shared_via U a b\<close>: the pointer \<open>b\<close> is the image of the pointer \<open>a\<close> under the
  deduplication map \<open>U\<close>: both are empty, or \<open>a\<close> is a key of \<open>U\<close> and \<open>b\<close> is its entry.
\<close>

definition shared_via :: "(ref \<rightharpoonup> ref) \<Rightarrow> ref option \<Rightarrow> ref option \<Rightarrow> bool" where
  "shared_via U a b = (case a of None \<Rightarrow> b = None | Some x \<Rightarrow> U x \<noteq> None \<and> b = U x)"

text \<open>
  The invariant of the loop over the objects (lines 132-147), before the object at
  position \<open>i\<close>, for the Grid \<open>G0\<close> the loop starts from and \<open>N\<close> frames: only the objects,
  the sources and the source cursor differ from \<open>G0\<close>; the objects before \<open>i\<close> have been
  validated and own the source ranges \<open>[k * N, k * N + N)\<close>, the others are as in \<open>G0\<close>; the
  sources are those the constructor returns for the objects before \<open>i\<close>, object by object
  and frame by frame; the cursor is at their end.
\<close>

definition sources_inv :: "externals \<Rightarrow> Grid \<Rightarrow> nat \<Rightarrow> Grid \<Rightarrow> bool" where
  "sources_inv ext G0 i G =
     (let N = frames_last G0 in
      G = G0\<lparr>objects := objects G, sources := sources G, g_sources_last := g_sources_last G\<rparr> \<and>
      length (objects G) = length (objects G0) \<and>
      (\<forall>k < length (objects G0).
         objects G ! k =
           (if k < i then (objects G0 ! k)\<lparr>sources_first := k * N, sources_last := k * N + N\<rparr>
            else objects G0 ! k)) \<and>
      g_sources_last G = i * N \<and>
      length (sources G) = i * N \<and>
      (\<forall>k < i. validate ext (g_heap G0) (objects G0 ! k) \<and>
         (\<forall>j < N. Source_ctor (g_heap G0 POSITION) j (frames G0 ! j) k (objects G0 ! k) (g_wcs G0)
                    = Inr (sources G ! (k * N + j)))))"

text \<open>
  \<open>kind_ok D G E\<close>: the components of kind \<open>E\<close> of the Grid \<open>G\<close> are a deduplicated copy of
  those of the Definition \<open>D\<close>. There is a map \<open>U\<close> from definition pointers to grid
  pointers, injective and onto the grid store of the kind, defined exactly on the
  pointers the definition objects hold, under which each grid Object points to the image
  of what its definition Object points to, and each grid component has the value and
  the flag of its original; the container of the kind lists the active components of
  the store in order.

  \<open>components_ok ext D G\<close>: the Grid as \<^verbatim>\<open>initializeGrid\<close> has it after the three
  transfers (line 131): frames and objects constructed one for one, no source yet,
  every kind deduplicated, and the offsets laid out over the three stores in the order
  position, radius, ellipticity, ending at the parameter count.
\<close>

definition kind_ok :: "Definition \<Rightarrow> Grid \<Rightarrow> ParameterType \<Rightarrow> bool" where
  "kind_ok D G E =
     (\<exists>U. dedup_inv U (length (g_heap G E)) \<and>
          dom U = {a. \<exists>d \<in> set (def_objects D). d_component d E = Some a} \<and>
          (\<forall>a p. U a = Some p \<longrightarrow>
             gc_value (g_heap G E ! p) = dc_value (def_heap D E ! a) \<and>
             gc_active (g_heap G E ! p) = dc_active (def_heap D E ! a)) \<and>
          list_all2 (\<lambda>d g. shared_via U (d_component d E) (g_component g E)) (def_objects D) (objects G) \<and>
          ptrVec G E = active_refs 0 (g_heap G E))"

definition components_ok :: "externals \<Rightarrow> Definition \<Rightarrow> Grid \<Rightarrow> bool" where
  "components_ok ext D G =
     (list_all2 (\<lambda>d g. object_id g = object_id d \<and> basis g = basis d \<and>
                       sources_first g = 0 \<and> sources_last g = 0)
        (def_objects D) (objects G) \<and>
      list_all2 (\<lambda>d g. frame_id g = frame_id d \<and> frame_psf g = frame_psf d \<and> frame_wcs g = frame_wcs d)
        (def_frames D) (frames G) \<and>
      frames_last G = length (def_frames D) \<and>
      objects_last G = length (def_objects D) \<and>
      sources G = [] \<and> g_sources_last G = 0 \<and>
      (\<forall>E. kind_ok D G E) \<and>
      (\<exists>p1 p2. layout 0 (SIZE ext POSITION) (g_heap G POSITION) p1 \<and>
               layout p1 (SIZE ext RADIUS) (g_heap G RADIUS) p2 \<and>
               layout p2 (SIZE ext ELLIPTICITY) (g_heap G ELLIPTICITY) (parameterCount G)))"

section \<open>Example inputs\<close>

text \<open>
  The sizes of the three kinds (two scalars for a position, one for a radius, two for an
  ellipticity), a validation that accepts every object, and one coefficient for an
  object without a basis.
\<close>

definition example_externals :: externals where
  "example_externals =
     \<lparr>SIZE = (\<lambda>E. case E of POSITION \<Rightarrow> 2 | RADIUS \<Rightarrow> 1 | ELLIPTICITY \<Rightarrow> 2),
      validate = (\<lambda>h ob. True),
      getCoefficientCount = (\<lambda>b. case b of None \<Rightarrow> 1 | Some x \<Rightarrow> 3)\<rparr>"

text \<open>
  The same externals with a validation that rejects the object of identifier 999 and
  accepts every other object.
\<close>

definition picky_externals :: externals where
  "picky_externals = example_externals\<lparr>validate := (\<lambda>h ob. object_id ob \<noteq> 999)\<rparr>"

text \<open>
  Two frames and two objects with a coordinate system everywhere. The two objects share
  one radius component and have different position components, the second one inactive;
  only the first object has an ellipticity.
\<close>

definition example_Definition :: Definition where
  "example_Definition =
     \<lparr>def_wcs = Some (Wcs 0),
      def_frames =
        [\<lparr>frame_id = 1, filterId = 7, footprint_npix = 10, frame_psf = Some (Psf 1), frame_wcs = Some (Wcs 1)\<rparr>,
         \<lparr>frame_id = 2, filterId = 7, footprint_npix = 5, frame_psf = None, frame_wcs = Some (Wcs 2)\<rparr>],
      def_objects =
        [\<lparr>object_id = 10, basis = Some (Basis 0),
          d_component = (\<lambda>E. case E of POSITION \<Rightarrow> Some 0 | RADIUS \<Rightarrow> Some 0 | ELLIPTICITY \<Rightarrow> Some 0)\<rparr>,
         \<lparr>object_id = 20, basis = Some (Basis 1),
          d_component = (\<lambda>E. case E of POSITION \<Rightarrow> Some 1 | RADIUS \<Rightarrow> Some 0 | ELLIPTICITY \<Rightarrow> None)\<rparr>],
      def_heap =
        (\<lambda>E. case E of
           POSITION \<Rightarrow> [\<lparr>dc_value = [1, 2], dc_active = True\<rparr>, \<lparr>dc_value = [3, 4], dc_active = False\<rparr>]
         | RADIUS \<Rightarrow> [\<lparr>dc_value = [5], dc_active = True\<rparr>]
         | ELLIPTICITY \<Rightarrow> [\<lparr>dc_value = [6, 7], dc_active = True\<rparr>])\<rparr>"

text \<open>
  One frame without a PSF and one object without a basis, and no coordinate system
  anywhere; and the same with a coordinate system on the frame only.
\<close>

definition unfit_Definition :: Definition where
  "unfit_Definition =
     \<lparr>def_wcs = None,
      def_frames =
        [\<lparr>frame_id = 1, filterId = 7, footprint_npix = 10, frame_psf = None, frame_wcs = None\<rparr>],
      def_objects =
        [\<lparr>object_id = 10, basis = None,
          d_component = (\<lambda>E. case E of POSITION \<Rightarrow> Some 0 | RADIUS \<Rightarrow> None | ELLIPTICITY \<Rightarrow> None)\<rparr>],
      def_heap =
        (\<lambda>E. case E of
           POSITION \<Rightarrow> [\<lparr>dc_value = [1, 2], dc_active = True\<rparr>]
         | RADIUS \<Rightarrow> []
         | ELLIPTICITY \<Rightarrow> [])\<rparr>"

definition inconsistent_Definition :: Definition where
  "inconsistent_Definition =
     unfit_Definition
       \<lparr>def_frames :=
          [\<lparr>frame_id = 1, filterId = 7, footprint_npix = 10, frame_psf = None, frame_wcs = Some (Wcs 1)\<rparr>]\<rparr>"

section \<open>Predicates of the statements about the reconstruction\<close>

text \<open>
  \<open>same_but_d_component E d d'\<close>: the definition Object \<open>d'\<close> is \<open>d\<close> but for its component
  pointer of kind \<open>E\<close>.
\<close>

definition same_but_d_component :: "ParameterType \<Rightarrow> definition_Object \<Rightarrow> definition_Object \<Rightarrow> bool" where
  "same_but_d_component E d d' =
     (d' = d\<lparr>d_component := d_component d'\<rparr> \<and> (\<forall>E'. E' \<noteq> E \<longrightarrow> d_component d' E' = d_component d E'))"

text \<open>
  \<open>new_value sz paramIter pc\<close>: the value of the definition component that the reverse
  transfer creates for the grid component \<open>pc\<close>: the \<open>sz\<close> scalars of the buffer at the
  offset of \<open>pc\<close> when a buffer is given and \<open>pc\<close> is active, the value of \<open>pc\<close> otherwise.
\<close>

definition new_value :: "nat \<Rightarrow> scalar list option \<Rightarrow> grid_ParameterComponent \<Rightarrow> scalar list" where
  "new_value sz paramIter pc =
     (case paramIter of
        None \<Rightarrow> gc_value pc
      | Some buf \<Rightarrow> if gc_active pc then take sz (drop (nat (gc_offset pc)) buf) else gc_value pc)"

text \<open>
  \<open>reverse_kind_ok ext G paramIter D' E\<close>: the components of kind \<open>E\<close> of the Definition \<open>D'\<close>
  are a deduplicated copy of those of the Grid \<open>G\<close>, with the values read from the
  parameter buffer where the reverse transfer reads them.
\<close>

definition reverse_kind_ok :: "externals \<Rightarrow> Grid \<Rightarrow> scalar list option \<Rightarrow> Definition \<Rightarrow> ParameterType \<Rightarrow> bool" where
  "reverse_kind_ok ext G paramIter D' E =
     (\<exists>U. dedup_inv U (length (def_heap D' E)) \<and>
          dom U = {a. \<exists>g \<in> set (objects G). g_component g E = Some a} \<and>
          (\<forall>a p. U a = Some p \<longrightarrow>
             def_heap D' E ! p =
               \<lparr>dc_value = new_value (SIZE ext E) paramIter (g_heap G E ! a),
                dc_active = gc_active (g_heap G E ! a)\<rparr>) \<and>
          list_all2 (\<lambda>g d'. shared_via U (g_component g E) (d_component d' E)) (objects G) (def_objects D'))"

text \<open>
  \<open>buffer_fits ext G paramIter\<close>: when a parameter buffer is given, every active component
  of the Grid that an object points to has a non-negative offset and its range ends
  inside the buffer.
\<close>

definition buffer_fits :: "externals \<Rightarrow> Grid \<Rightarrow> scalar list option \<Rightarrow> bool" where
  "buffer_fits ext G paramIter =
     (\<forall>E buf g gp. paramIter = Some buf \<and> g \<in> set (objects G) \<and> g_component g E = Some gp \<and>
           gc_active (g_heap G E ! gp) \<longrightarrow>
           0 \<le> gc_offset (g_heap G E ! gp) \<and> nat (gc_offset (g_heap G E ! gp)) + SIZE ext E \<le> length buf)"

text \<open>
  \<open>same_sharing ps qs\<close>: the pointer lists \<open>ps\<close> and \<open>qs\<close> have the same sharing topology:
  the same length, empty pointers at the same places, and equal pointers at the same
  pairs of places.
\<close>

definition same_sharing :: "ref option list \<Rightarrow> ref option list \<Rightarrow> bool" where
  "same_sharing ps qs =
     (length ps = length qs \<and>
      (\<forall>i < length ps. (ps ! i = None) = (qs ! i = None)) \<and>
      (\<forall>i < length ps. \<forall>j < length ps. (ps ! i = ps ! j) = (qs ! i = qs ! j)))"

section \<open>An example without coordinate systems\<close>

text \<open>
  The example without a coordinate system, on the Definition and on both frames; the
  frames have no PSF and both objects have a basis.
\<close>

definition plain_Definition :: Definition where
  "plain_Definition =
     example_Definition
       \<lparr>def_wcs := None,
        def_frames :=
          [\<lparr>frame_id = 1, filterId = 7, footprint_npix = 10, frame_psf = None, frame_wcs = None\<rparr>,
           \<lparr>frame_id = 2, filterId = 7, footprint_npix = 5, frame_psf = None, frame_wcs = None\<rparr>]\<rparr>"

section \<open>The registration step in the words of the specification\<close>


section \<open>Properties of \<^verbatim>\<open>find\<close>\<close>

text \<open>
  On an array sorted by identifier whose part from \<open>iter1\<close> of length \<open>count\<close> lies inside
  the array, the loop reads inside the array only and returns the lower bound of the
  identifier in that part.
\<close>

lemma find_loop_bounds:
  "iter1 + count \<le> length array \<Longrightarrow> sorted (map idf array) \<Longrightarrow>
   \<exists>k. find_loop idf array ident iter1 count = Inr k \<and> iter1 \<le> k \<and> k \<le> iter1 + count \<and>
       (\<forall>i. iter1 \<le> i \<and> i < k \<longrightarrow> idf (array ! i) < ident) \<and>
       (\<forall>i. k \<le> i \<and> i < iter1 + count \<longrightarrow> ident \<le> idf (array ! i))"
proof (induction idf array ident iter1 count rule: find_loop.induct)
  case (1 idf array ident iter1 count)
  show ?case
  proof (cases "0 < count")
    case False
    then show ?thesis by (simp add: find_loop.simps[of idf array ident iter1 count])
  next
    case True
    define step where "step = count div 2"
    define iter2 where "iter2 = iter1 + step"
    have st: "step < count" using True by (simp add: step_def)
    have in2: "iter2 < length array" using st "1.prems"(1) by (simp add: iter2_def)
    show ?thesis
    proof (cases "idf (array ! iter2) < ident")
      case lt: True
      have "Suc iter2 + (count - (step + 1)) \<le> length array" using st "1.prems"(1) by (simp add: iter2_def)
      from "1.IH"(1)[OF True step_def iter2_def _ lt this "1.prems"(2)] in2
      obtain k where k: "find_loop idf array ident (Suc iter2) (count - (step + 1)) = Inr k"
        "Suc iter2 \<le> k" "k \<le> Suc iter2 + (count - (step + 1))"
        "\<forall>i. Suc iter2 \<le> i \<and> i < k \<longrightarrow> idf (array ! i) < ident"
        "\<forall>i. k \<le> i \<and> i < Suc iter2 + (count - (step + 1)) \<longrightarrow> ident \<le> idf (array ! i)"
        by auto
      have eq: "find_loop idf array ident iter1 count = Inr k"
        using True in2 lt k(1) by (simp add: find_loop.simps[of idf array ident iter1 count] step_def iter2_def Let_def)
      have low: "idf (array ! i) < ident" if "iter1 \<le> i" "i < k" for i
      proof (cases "i \<le> iter2")
        case True
        have "idf (array ! i) \<le> idf (array ! iter2)"
          using sorted_nth_mono[OF "1.prems"(2), of i iter2] True in2 by simp
        then show ?thesis using lt by simp
      next
        case False
        then show ?thesis using k(4) that by simp
      qed
      show ?thesis using eq k(2,3,5) low st by (auto simp: iter2_def)
    next
      case ge: False
      have "iter1 + step \<le> length array" using st "1.prems"(1) by simp
      from "1.IH"(2)[OF True step_def iter2_def _ ge this "1.prems"(2)] in2
      obtain k where k: "find_loop idf array ident iter1 step = Inr k"
        "iter1 \<le> k" "k \<le> iter1 + step"
        "\<forall>i. iter1 \<le> i \<and> i < k \<longrightarrow> idf (array ! i) < ident"
        "\<forall>i. k \<le> i \<and> i < iter1 + step \<longrightarrow> ident \<le> idf (array ! i)"
        by auto
      have eq: "find_loop idf array ident iter1 count = Inr k"
        using True in2 ge k(1) by (simp add: find_loop.simps[of idf array ident iter1 count] step_def iter2_def Let_def)
      have high: "ident \<le> idf (array ! i)" if "k \<le> i" "i < iter1 + count" for i
      proof (cases "i < iter2")
        case True
        then show ?thesis using k(5) that by (simp add: iter2_def)
      next
        case False
        have "idf (array ! iter2) \<le> idf (array ! i)"
          using sorted_nth_mono[OF "1.prems"(2), of iter2 i] False that "1.prems"(1) by simp
        then show ?thesis using ge by simp
      qed
      show ?thesis using eq k(2,3,4) high st by auto
    qed
  qed
qed

lemma find_loop_lower_bound:
  assumes "sorted (map idf array)"
  obtains k where "find_loop idf array ident 0 (length array) = Inr k" "k \<le> length array"
    "\<And>i. i < k \<Longrightarrow> idf (array ! i) < ident"
    "\<And>i. k \<le> i \<Longrightarrow> i < length array \<Longrightarrow> ident \<le> idf (array ! i)"
  using find_loop_bounds[of 0 "length array" array idf ident] assms by auto

text \<open>An identifier that is in the sorted array is found.\<close>

lemma find_id_present:
  assumes "sorted (map idf array)" "x \<in> set array" "idf x = ident"
  shows "\<exists>y. find_id idf array ident = Inr y \<and> y \<in> set array \<and> idf y = ident"
proof -
  obtain k where k: "find_loop idf array ident 0 (length array) = Inr k" "k \<le> length array"
    "\<And>i. i < k \<Longrightarrow> idf (array ! i) < ident"
    "\<And>i. k \<le> i \<Longrightarrow> i < length array \<Longrightarrow> ident \<le> idf (array ! i)"
    using find_loop_lower_bound[OF assms(1)] by blast
  obtain j where j: "j < length array" "array ! j = x"
    using assms(2) by (auto simp: in_set_conv_nth)
  have kj: "k \<le> j" using k(3)[of j] j assms(3) by (cases "j < k") auto
  then have kl: "k < length array" using j by simp
  have "idf (array ! k) \<le> idf (array ! j)"
    using sorted_nth_mono[OF assms(1), of k j] kj j by simp
  moreover have "ident \<le> idf (array ! k)" using k(4)[of k] kl by simp
  ultimately have "idf (array ! k) = ident" using j assms(3) by simp
  then show ?thesis using k(1) kl by (simp add: find_id_def)
qed

lemma find_id_present_distinct:
  assumes "sorted (map idf array)" "distinct (map idf array)" "x \<in> set array"
  shows "find_id idf array (idf x) = Inr x"
proof -
  obtain y where y: "find_id idf array (idf x) = Inr y" "y \<in> set array" "idf y = idf x"
    using find_id_present[OF assms(1,3) refl] by blast
  have "inj_on idf (set array)" using assms(2) by (simp add: distinct_map)
  then have "y = x" using y(2,3) assms(3) by (auto dest: inj_onD)
  then show ?thesis using y(1) by simp
qed

text \<open>
  An identifier that is not in the sorted array is reported as not found when some
  element has a greater identifier.
\<close>

lemma find_id_absent_inside:
  assumes "sorted (map idf array)" "ident \<notin> idf ` set array" "z \<in> set array" "ident < idf z"
  shows "find_id idf array ident = Inl (Exception NotFound)"
proof -
  obtain k where k: "find_loop idf array ident 0 (length array) = Inr k" "k \<le> length array"
    "\<And>i. i < k \<Longrightarrow> idf (array ! i) < ident"
    "\<And>i. k \<le> i \<Longrightarrow> i < length array \<Longrightarrow> ident \<le> idf (array ! i)"
    using find_loop_lower_bound[OF assms(1)] by blast
  obtain j where j: "j < length array" "array ! j = z"
    using assms(3) by (auto simp: in_set_conv_nth)
  have "k \<le> j" using k(3)[of j] j assms(4) by (cases "j < k") auto
  then have kl: "k < length array" using j by simp
  then have "idf (array ! k) \<noteq> ident" using assms(2) by (metis image_eqI nth_mem)
  then show ?thesis using k(1) kl by (simp add: find_id_def)
qed

text \<open>
  When every identifier of the array is smaller than the one looked up (the empty array
  included), the lower bound is the end of the array and the final comparison
  \<^verbatim>\<open>iter1->id != id\<close> reads past the end.
\<close>

lemma find_id_absent_beyond:
  assumes "sorted (map idf array)" "\<forall>x \<in> set array. idf x < ident"
  shows "find_id idf array ident = Inl (Undefined PastTheEnd)"
proof -
  obtain k where k: "find_loop idf array ident 0 (length array) = Inr k" "k \<le> length array"
    "\<And>i. i < k \<Longrightarrow> idf (array ! i) < ident"
    "\<And>i. k \<le> i \<Longrightarrow> i < length array \<Longrightarrow> ident \<le> idf (array ! i)"
    using find_loop_lower_bound[OF assms(1)] by blast
  have "\<not> k < length array"
  proof
    assume kl: "k < length array"
    then have "ident \<le> idf (array ! k)" using k(4)[of k] by simp
    moreover have "idf (array ! k) < ident" using assms(2) kl by simp
    ultimately show False by simp
  qed
  then show ?thesis using k(1) by (simp add: find_id_def)
qed

text \<open>
  Claim C6: on an array sorted ascending by identifier, \<^verbatim>\<open>find\<close> returns the element with
  the queried identifier when there is one, and fails with the not-found error when
  there is none. The first half is \<open>find_id_present\<close>. The second half fails in the
  code: on the sorted array of two objects with identifiers 1 and 3, looking up the
  absent identifier 5 does not throw the not-found exception; the final comparison
  reads the slot after the last element.
\<close>

theorem find_id_absent_reads_past_end:
  "find_id object_id
     [\<lparr>object_id = 1, basis = None\<rparr>, \<lparr>object_id = 3, basis = None\<rparr>] 5
   = Inl (Undefined PastTheEnd)"
  by (simp add: find_id_def)

text \<open>
  Claim C10: for every non-empty sorted array the final identifier comparison of \<^verbatim>\<open>find\<close>
  reads an element inside the array, while for the empty array it reads out of bounds,
  so that the not-found branch is reached for non-empty arrays only. The empty array
  behaves as the claim says, but the claim fails for a non-empty array: on the array of
  the single frame with identifier 1, looking up 2 leaves the loop with \<^verbatim>\<open>iter1\<close> at
  position 1, which is the end of the array, and the comparison reads there.
\<close>

theorem find_id_nonempty_final_read_out_of_bounds:
  "find_loop frame_id
     [\<lparr>frame_id = 1, filterId = 0, footprint_npix = 4, frame_psf = None, frame_wcs = None\<rparr>] 2 0 1
   = Inr 1
   \<and> length [\<lparr>frame_id = 1, filterId = 0, footprint_npix = 4, frame_psf = None, frame_wcs = None\<rparr>] = 1
   \<and> find_id frame_id
        [\<lparr>frame_id = 1, filterId = 0, footprint_npix = 4, frame_psf = None, frame_wcs = None\<rparr>] 2
      = Inl (Undefined PastTheEnd)
   \<and> find_id frame_id ([] :: FrameBase list) 2 = Inl (Undefined PastTheEnd)"
  by (simp add: find_id_def)

section \<open>Properties of the construction of a Grid\<close>

subsection \<open>The frame and object loops\<close>

text \<open>
  The frame loop appends one grid Frame for each definition Frame, in order, advances the
  frame cursor by as much and leaves the objects, sources and components alone. The
  object loop does the same for the objects; the new objects have no components yet.
\<close>

lemma initializeGrid_frames_spec:
  "initializeGrid_frames fs c G = (c', G') \<Longrightarrow>
     (\<exists>news. frames G' = frames G @ news \<and>
        list_all2 (\<lambda>d g. frame_id g = frame_id d \<and> frame_psf g = frame_psf d \<and> frame_wcs g = frame_wcs d) fs news) \<and>
     frames_last G' = frames_last G + length fs \<and>
     objects G' = objects G \<and> objects_last G' = objects_last G \<and>
     sources G' = sources G \<and> g_sources_last G' = g_sources_last G \<and>
     g_heap G' = g_heap G \<and> ptrVec G' = ptrVec G \<and>
     parameterCount G' = parameterCount G \<and> g_wcs G' = g_wcs G \<and>
     objectData G' = objectData G \<and> frameData G' = frameData G \<and>
     sourceData G' = sourceData G"
proof (induction fs arbitrary: c G)
  case Nil
  then show ?case by simp
next
  case (Cons i rest)
  from Cons.prems obtain r_second G1 where
    r: "(case filters G (filterId i) of
               Some idx \<Rightarrow> (idx, G)
             | None \<Rightarrow> (filterCount G,
                         G\<lparr>filters := (filters G)(filterId i \<mapsto> filterCount G),
                                filterCount := filterCount G + 1\<rparr>)) = (r_second, G1)"
    by (cases "filters G (filterId i)") auto
  define G3 where "G3 = G1\<lparr>frames_last := frames_last G1 + 1,
       frames := frames G1 @ [Frame_ctor i (g_pixelCount G1) r_second c],
       g_pixelCount := g_pixelCount G1 + pixelCount (Frame_ctor i (g_pixelCount G1) r_second c)\<rparr>"
  have rec: "initializeGrid_frames rest (c + 1) G3 = (c', G')"
    using Cons.prems r by (simp add: Let_def G3_def)
  have o1: "frames G1 = frames G" "frames_last G1 = frames_last G"
     "objects G1 = objects G" "objects_last G1 = objects_last G"
     "sources G1 = sources G" "g_sources_last G1 = g_sources_last G"
     "g_heap G1 = g_heap G" "ptrVec G1 = ptrVec G"
     "parameterCount G1 = parameterCount G" "g_wcs G1 = g_wcs G"
     "objectData G1 = objectData G" "frameData G1 = frameData G"
     "sourceData G1 = sourceData G"
    using r by (auto split: option.splits)
  from Cons.IH[OF rec] obtain news where
    n: "frames G' = frames G3 @ news"
       "list_all2 (\<lambda>d g. frame_id g = frame_id d \<and> frame_psf g = frame_psf d \<and> frame_wcs g = frame_wcs d) rest news"
    and rest: "frames_last G' = frames_last G3 + length rest"
     "objects G' = objects G3" "objects_last G' = objects_last G3"
     "sources G' = sources G3" "g_sources_last G' = g_sources_last G3"
     "g_heap G' = g_heap G3" "ptrVec G' = ptrVec G3"
     "parameterCount G' = parameterCount G3" "g_wcs G' = g_wcs G3"
     "objectData G' = objectData G3" "frameData G' = frameData G3"
     "sourceData G' = sourceData G3"
    by blast
  have "frames G' = frames G @ (Frame_ctor i (g_pixelCount G1) r_second c # news)"
    using n(1) o1 by (simp add: G3_def)
  moreover have "list_all2 (\<lambda>d g. frame_id g = frame_id d \<and> frame_psf g = frame_psf d \<and> frame_wcs g = frame_wcs d)
       (i # rest) (Frame_ctor i (g_pixelCount G1) r_second c # news)"
    using n(2) by (simp add: Frame_ctor_def)
  ultimately show ?case using rest o1 by (auto simp: G3_def)
qed

lemma initializeGrid_objects_spec:
  "(\<exists>news. objects (initializeGrid_objects ext os G) = objects G @ news \<and>
        list_all2 (\<lambda>d g. object_id g = object_id d \<and> basis g = basis d \<and> g_component g = (\<lambda>E. None)
                       \<and> sources_first g = 0 \<and> sources_last g = 0) os news) \<and>
     objects_last (initializeGrid_objects ext os G) = objects_last G + length os \<and>
     frames (initializeGrid_objects ext os G) = frames G \<and>
     frames_last (initializeGrid_objects ext os G) = frames_last G \<and>
     sources (initializeGrid_objects ext os G) = sources G \<and>
     g_sources_last (initializeGrid_objects ext os G) = g_sources_last G \<and>
     g_heap (initializeGrid_objects ext os G) = g_heap G \<and>
     ptrVec (initializeGrid_objects ext os G) = ptrVec G \<and>
     parameterCount (initializeGrid_objects ext os G) = parameterCount G \<and>
     g_wcs (initializeGrid_objects ext os G) = g_wcs G \<and>
     objectData (initializeGrid_objects ext os G) = objectData G \<and>
     frameData (initializeGrid_objects ext os G) = frameData G \<and>
     sourceData (initializeGrid_objects ext os G) = sourceData G"
proof (induction os arbitrary: G)
  case Nil
  then show ?case by simp
next
  case (Cons i rest)
  define G2 where "G2 = G\<lparr>objects_last := objects_last G + 1,
        objects := objects G @ [Object_ctor ext i (g_coefficientCount G)],
        g_coefficientCount := g_coefficientCount G + coefficientCount (Object_ctor ext i (g_coefficientCount G))\<rparr>"
  have rec: "initializeGrid_objects ext (i # rest) G = initializeGrid_objects ext rest G2"
    by (simp add: Let_def G2_def)
  from Cons.IH[of G2] obtain news where
    n: "objects (initializeGrid_objects ext rest G2) = objects G2 @ news"
       "list_all2 (\<lambda>d g. object_id g = object_id d \<and> basis g = basis d \<and> g_component g = (\<lambda>E. None)
                       \<and> sources_first g = 0 \<and> sources_last g = 0) rest news"
    by blast
  have "objects (initializeGrid_objects ext rest G2) = objects G @ (Object_ctor ext i (g_coefficientCount G) # news)"
    using n(1) by (simp add: G2_def)
  moreover have "list_all2 (\<lambda>d g. object_id g = object_id d \<and> basis g = basis d \<and> g_component g = (\<lambda>E. None)
                       \<and> sources_first g = 0 \<and> sources_last g = 0)
       (i # rest) (Object_ctor ext i (g_coefficientCount G) # news)"
    using n(2) by (simp add: Object_ctor_def)
  ultimately have "\<exists>news. objects (initializeGrid_objects ext rest G2) = objects G @ news \<and>
        list_all2 (\<lambda>d g. object_id g = object_id d \<and> basis g = basis d \<and> g_component g = (\<lambda>E. None)
                       \<and> sources_first g = 0 \<and> sources_last g = 0) (i # rest) news" by blast
  then show ?case unfolding rec using Cons.IH[of G2] by (simp add: G2_def)
qed

text \<open>
  The pixel counter is a 32-bit \<^verbatim>\<open>int\<close>: with three frames of \<open>2^30\<close> pixels each, the third
  offset and the final count have wrapped around.
\<close>

lemma initializeGrid_frames_wraps:
  "map (\<lambda>f. sint (pixelOffset f))
       (frames (snd (initializeGrid_frames
          [\<lparr>frame_id = 1, filterId = 7, footprint_npix = 1073741824, frame_psf = None, frame_wcs = None\<rparr>,
           \<lparr>frame_id = 2, filterId = 7, footprint_npix = 1073741824, frame_psf = None, frame_wcs = None\<rparr>,
           \<lparr>frame_id = 3, filterId = 7, footprint_npix = 1073741824, frame_psf = None, frame_wcs = None\<rparr>]
          0 (Grid_members unfit_Definition))))
     = [0, 1073741824, - 2147483648] \<and>
   sint (g_pixelCount (snd (initializeGrid_frames
          [\<lparr>frame_id = 1, filterId = 7, footprint_npix = 1073741824, frame_psf = None, frame_wcs = None\<rparr>,
           \<lparr>frame_id = 2, filterId = 7, footprint_npix = 1073741824, frame_psf = None, frame_wcs = None\<rparr>,
           \<lparr>frame_id = 3, filterId = 7, footprint_npix = 1073741824, frame_psf = None, frame_wcs = None\<rparr>]
          0 (Grid_members unfit_Definition)))) = - 1073741824"
  by (simp add: Grid_members_def Frame_ctor_def Let_def)

subsection \<open>The deduplication step, Definition \<rightarrow> Grid\<close>

text \<open>
  What lines 63-73 do for a pointer \<open>dp\<close>: on a repeat sight nothing changes and the
  grid pointer stored for \<open>dp\<close> is returned; on first sight a grid component is
  allocated that copies the definition component, with the running parameter count as
  its offset when it is active and \<open>- 1\<close> when it is not, and only an active one advances
  the count and enters the container.
\<close>

lemma unique_insert_DG_cases:
  assumes "unique_insert_DG sz E c dp (U, G) = (gp, U', G')"
  shows "(U dp = Some gp \<and> U' = U \<and> G' = G) \<or>
         (U dp = None \<and> gp = length (g_heap G E) \<and> U' = U(dp \<mapsto> gp) \<and>
          G' = G\<lparr>g_heap := (g_heap G)(E := g_heap G E @
                     [grid_ParameterComponent_ctor c (if dc_active c then parameterCount G else - 1)]),
                 parameterCount := parameterCount G + (if dc_active c then int sz else 0),
                 ptrVec := (ptrVec G)(E := ptrVec G E @ (if dc_active c then [gp] else []))\<rparr>)"
  using assms by (auto simp: unique_insert_DG_def Let_def split: option.splits if_splits)

lemma dedup_inv_empty: "dedup_inv Map.empty 0"
  by (simp add: dedup_inv_def)

lemma dedup_inv_fresh:
  assumes "dedup_inv U n" "U a = None"
  shows "dedup_inv (U(a \<mapsto> n)) (Suc n)"
proof -
  have inj: "inj_on U (dom U)" and ran: "ran U = {..<n}" using assms(1) by (auto simp: dedup_inv_def)
  have nr: "n \<notin> ran U" using ran by simp
  have "inj_on (U(a \<mapsto> n)) (dom (U(a \<mapsto> n)))"
  proof (rule inj_onI)
    fix x y assume x: "x \<in> dom (U(a \<mapsto> n))" and y: "y \<in> dom (U(a \<mapsto> n))"
      and eq: "(U(a \<mapsto> n)) x = (U(a \<mapsto> n)) y"
    show "x = y"
    proof (cases "x = a")
      case True
      show ?thesis
      proof (cases "y = a")
        case False
        then have "U y = Some n" using eq True by simp
        then have "n \<in> ran U" by (auto simp: ran_def)
        then show ?thesis using nr by simp
      qed (simp add: True)
    next
      case False
      show ?thesis
      proof (cases "y = a")
        case True
        then have "U x = Some n" using eq False by simp
        then have "n \<in> ran U" by (auto simp: ran_def)
        then show ?thesis using nr by simp
      next
        case ya: False
        have "U x = U y" using eq False ya by simp
        moreover have "x \<in> dom U" "y \<in> dom U" using x y False ya by auto
        ultimately show ?thesis using inj by (auto dest: inj_onD)
      qed
    qed
  qed
  moreover have "ran (U(a \<mapsto> n)) = {..<Suc n}"
    using assms(2) ran by (auto simp: lessThan_Suc)
  ultimately show ?thesis by (simp add: dedup_inv_def)
qed

lemma dedup_inv_eq_iff:
  assumes "dedup_inv U n" "U a = Some p" "U b = Some q"
  shows "p = q \<longleftrightarrow> a = b"
proof
  assume "p = q"
  then have "U a = U b" using assms by simp
  moreover have "a \<in> dom U" "b \<in> dom U" using assms by auto
  ultimately show "a = b" using assms(1) by (auto simp: dedup_inv_def dest: inj_onD)
next
  assume "a = b" then show "p = q" using assms by simp
qed

lemma dedup_inv_bound:
  assumes "dedup_inv U n" "U a = Some p"
  shows "p < n"
  using assms by (auto simp: dedup_inv_def ran_def)

lemma unique_insert_DG_inv:
  assumes "unique_insert_DG sz E c dp (U, G) = (gp, U', G')" "dedup_inv U (length (g_heap G E))"
  shows "dedup_inv U' (length (g_heap G' E))" "U \<subseteq>\<^sub>m U'" "U' dp = Some gp"
  using unique_insert_DG_cases[OF assms(1)] assms(2)
  by (auto simp: dedup_inv_fresh map_le_def)

subsection \<open>The transfer loop, Definition \<rightarrow> Grid\<close>

text \<open>
  When the loop of lines 60-77 returns, it has walked all grid objects; each keeps all
  its fields but the pointer of kind \<open>E\<close>, which is the image under the final \<^verbatim>\<open>unique\<close>
  map of the pointer of its definition Object (and is left as it was when that one is
  empty); the map stays injective onto the positions of the grid store.
\<close>

lemma same_but_component_refl: "same_but_component E g g"
  by (simp add: same_but_component_def)

lemma same_but_component_update: "same_but_component E g (g\<lparr>g_component := (g_component g)(E := x)\<rparr>)"
  by (simp add: same_but_component_def)

lemma transfer_frame_refl: "transfer_frame E G G"
  by (simp add: transfer_frame_def)

lemma transfer_frame_trans:
  assumes "transfer_frame E G G1" "transfer_frame E G1 G2"
  shows "transfer_frame E G G2"
proof -
  have 1: "G1 = G\<lparr>g_heap := g_heap G1, parameterCount := parameterCount G1, ptrVec := ptrVec G1\<rparr>"
    using assms(1) by (simp add: transfer_frame_def)
  have 2: "G2 = G1\<lparr>g_heap := g_heap G2, parameterCount := parameterCount G2, ptrVec := ptrVec G2\<rparr>"
    using assms(2) by (simp add: transfer_frame_def)
  have "G2 = G\<lparr>g_heap := g_heap G2, parameterCount := parameterCount G2, ptrVec := ptrVec G2\<rparr>"
    by (subst 2, subst 1) simp
  then show ?thesis using assms by (simp add: transfer_frame_def)
qed

lemma unique_insert_DG_frame:
  assumes "unique_insert_DG sz E c dp (U, G) = (gp, U', G')"
  shows "transfer_frame E G G'"
  using unique_insert_DG_cases[OF assms] by (auto simp: transfer_frame_def)

lemma transferComponents_DG_loop_spec:
  assumes "transferComponents_DG_loop sz E heap ds gs (U, G) = Inr (gs', U', G')"
    and "dedup_inv U (length (g_heap G E))"
  shows "dedup_inv U' (length (g_heap G' E)) \<and> U \<subseteq>\<^sub>m U' \<and> length gs \<le> length ds \<and>
         transfer_frame E G G' \<and>
         list_all2 (\<lambda>(d, g) g'. same_but_component E g g' \<and>
                      (case d_component d E of
                         None \<Rightarrow> g_component g' E = g_component g E
                       | Some a \<Rightarrow> U' a \<noteq> None \<and> g_component g' E = U' a))
                   (zip ds gs) gs'"
  using assms
proof (induction gs arbitrary: ds U G gs' U' G')
  case Nil
  then show ?case by (simp add: transfer_frame_refl)
next
  case (Cons g gis)
  show ?case
  proof (cases ds)
    case Nil
    then show ?thesis using Cons.prems(1) by simp
  next
    case ds: (Cons d dis)
    show ?thesis
    proof (cases "d_component d E")
      case None
      from Cons.prems(1) obtain gis' where
        rec: "transferComponents_DG_loop sz E heap dis gis (U, G) = Inr (gis', U', G')"
        and gs': "gs' = g # gis'"
        by (auto simp: ds None split: sum.splits)
      from Cons.IH[OF rec Cons.prems(2)] show ?thesis
        by (simp add: ds gs' None same_but_component_refl)
    next
      case (Some dp)
      obtain gp U1 G1 where step: "unique_insert_DG sz E (heap ! dp) dp (U, G) = (gp, U1, G1)"
        by (metis prod_cases3)
      from Cons.prems(1) obtain gis' where
        rec: "transferComponents_DG_loop sz E heap dis gis (U1, G1) = Inr (gis', U', G')"
        and gs': "gs' = g\<lparr>g_component := (g_component g)(E := Some gp)\<rparr> # gis'"
        by (auto simp: ds Some step split: sum.splits)
      note s = unique_insert_DG_inv[OF step Cons.prems(2)]
      note ih = Cons.IH[OF rec s(1)]
      have le: "U \<subseteq>\<^sub>m U'" using s(2) ih by (blast intro: map_le_trans)
      have U'dp: "U' dp = Some gp" using s(3) ih by (metis domI map_le_def)
      have fr: "transfer_frame E G G'"
        using unique_insert_DG_frame[OF step] ih by (blast intro: transfer_frame_trans)
      show ?thesis using ih le U'dp fr
        by (simp add: ds gs' Some same_but_component_update)
    qed
  qed
qed

text \<open>
  An invariant of the deduplication state that every step preserves holds when the loop
  returns. With it: the loop appends to the store of kind \<open>E\<close> components whose offsets
  follow the running parameter count, and appends to the container the positions of the
  active ones.
\<close>

lemma transferComponents_DG_loop_invariant:
  assumes "transferComponents_DG_loop sz E heap ds gs s = Inr (gs', s')"
    and "P s"
    and "\<And>s dp gp s1. P s \<Longrightarrow> unique_insert_DG sz E (heap ! dp) dp s = (gp, s1) \<Longrightarrow>
            (\<exists>d \<in> set ds. d_component d E = Some dp) \<Longrightarrow> P s1"
  shows "P s'"
  using assms
proof (induction gs arbitrary: ds s gs')
  case Nil
  then show ?case by simp
next
  case (Cons g gis)
  show ?case
  proof (cases ds)
    case Nil
    then show ?thesis using Cons.prems(1) by simp
  next
    case ds: (Cons d dis)
    have stepP: "\<And>s dp gp s1. P s \<Longrightarrow> unique_insert_DG sz E (heap ! dp) dp s = (gp, s1) \<Longrightarrow>
            (\<exists>d \<in> set dis. d_component d E = Some dp) \<Longrightarrow> P s1"
      using Cons.prems(3) by (auto simp: ds)
    show ?thesis
    proof (cases "d_component d E")
      case None
      from Cons.prems(1) obtain gis' where
        rec: "transferComponents_DG_loop sz E heap dis gis s = Inr (gis', s')"
        by (auto simp: ds None split: sum.splits)
      show ?thesis by (rule Cons.IH[OF rec Cons.prems(2) stepP])
    next
      case (Some dp)
      obtain gp s1 where step: "unique_insert_DG sz E (heap ! dp) dp s = (gp, s1)"
        by (cases "unique_insert_DG sz E (heap ! dp) dp s") auto
      from Cons.prems(1) obtain gis' where
        rec: "transferComponents_DG_loop sz E heap dis gis s1 = Inr (gis', s')"
        by (auto simp: ds Some step split: sum.splits)
      have "P s1" using Cons.prems(3)[OF Cons.prems(2) step] by (simp add: ds Some)
      then show ?thesis by (rule Cons.IH[OF rec _ stepP])
    qed
  qed
qed

lemma layout_append:
  "layout p sz (xs @ ys) q \<longleftrightarrow> (\<exists>m. layout p sz xs m \<and> layout m sz ys q)"
  by (induction xs arbitrary: p) auto

lemma active_refs_append:
  "active_refs n (xs @ ys) = active_refs n xs @ active_refs (n + length xs) ys"
  by (induction xs arbitrary: n) auto

lemma unique_insert_DG_layout:
  assumes "unique_insert_DG sz E c dp (U, G) = (gp, U', G')"
  shows "\<exists>news. g_heap G' E = g_heap G E @ news \<and>
           layout (parameterCount G) sz news (parameterCount G') \<and>
           ptrVec G' E = ptrVec G E @ active_refs (length (g_heap G E)) news"
proof -
  from unique_insert_DG_cases[OF assms] show ?thesis
  proof
    assume "U dp = Some gp \<and> U' = U \<and> G' = G"
    then have "g_heap G' E = g_heap G E @ [] \<and>
           layout (parameterCount G) sz [] (parameterCount G') \<and>
           ptrVec G' E = ptrVec G E @ active_refs (length (g_heap G E)) []" by simp
    then show ?thesis by blast
  next
    assume a: "U dp = None \<and> gp = length (g_heap G E) \<and> U' = U(dp \<mapsto> gp) \<and>
          G' = G\<lparr>g_heap := (g_heap G)(E := g_heap G E @
                     [grid_ParameterComponent_ctor c (if dc_active c then parameterCount G else - 1)]),
                 parameterCount := parameterCount G + (if dc_active c then int sz else 0),
                 ptrVec := (ptrVec G)(E := ptrVec G E @ (if dc_active c then [gp] else []))\<rparr>"
    let ?n = "grid_ParameterComponent_ctor c (if dc_active c then parameterCount G else - 1)"
    have "g_heap G' E = g_heap G E @ [?n]" using a by simp
    moreover have "layout (parameterCount G) sz [?n] (parameterCount G')"
      using a by (simp add: grid_ParameterComponent_ctor_def)
    moreover have "ptrVec G' E = ptrVec G E @ active_refs (length (g_heap G E)) [?n]"
      using a by (simp add: grid_ParameterComponent_ctor_def)
    ultimately show ?thesis by blast
  qed
qed

lemma transferComponents_DG_loop_layout:
  assumes "transferComponents_DG_loop sz E heap ds gs (U, G) = Inr (gs', U', G')"
  shows "\<exists>news. g_heap G' E = g_heap G E @ news \<and>
           layout (parameterCount G) sz news (parameterCount G') \<and>
           ptrVec G' E = ptrVec G E @ active_refs (length (g_heap G E)) news"
proof -
  let ?P = "\<lambda>s. \<exists>news. g_heap (snd s) E = g_heap G E @ news \<and>
           layout (parameterCount G) sz news (parameterCount (snd s)) \<and>
           ptrVec (snd s) E = ptrVec G E @ active_refs (length (g_heap G E)) news"
  have "?P (U', G')"
  proof (rule transferComponents_DG_loop_invariant[where P = ?P, OF assms])
    have "g_heap G E = g_heap G E @ [] \<and> layout (parameterCount G) sz [] (parameterCount G) \<and>
           ptrVec G E = ptrVec G E @ active_refs (length (g_heap G E)) []" by simp
    then show "?P (U, G)" unfolding snd_conv by blast
  next
    fix s dp gp s1
    assume P: "?P s" and step: "unique_insert_DG sz E (heap ! dp) dp s = (gp, s1)"
    obtain U0 G0 where s: "s = (U0, G0)" by (cases s)
    obtain U1 G1 where s1: "s1 = (U1, G1)" by (cases s1)
    from P s obtain n0 where n0: "g_heap G0 E = g_heap G E @ n0"
      "layout (parameterCount G) sz n0 (parameterCount G0)"
      "ptrVec G0 E = ptrVec G E @ active_refs (length (g_heap G E)) n0" by auto
    from unique_insert_DG_layout[OF step[unfolded s s1]] obtain n1 where n1:
      "g_heap G1 E = g_heap G0 E @ n1" "layout (parameterCount G0) sz n1 (parameterCount G1)"
      "ptrVec G1 E = ptrVec G0 E @ active_refs (length (g_heap G0 E)) n1" by blast
    have "g_heap G1 E = g_heap G E @ (n0 @ n1)" using n0(1) n1(1) by simp
    moreover have "layout (parameterCount G) sz (n0 @ n1) (parameterCount G1)"
      using n0(2) n1(2) layout_append by blast
    moreover have "ptrVec G1 E = ptrVec G E @ active_refs (length (g_heap G E)) (n0 @ n1)"
      using n0(1,3) n1(3) by (simp add: active_refs_append)
    ultimately show "?P s1" unfolding s1 snd_conv by blast
  qed
  then show ?thesis by simp
qed

text \<open>
  Each grid component created by the loop has the value and the active flag of the
  definition component it was created for, and the keys of the final map are pointers
  of definition objects.
\<close>

lemma transferComponents_DG_loop_copies:
  assumes "transferComponents_DG_loop sz E heap ds gs (U, G) = Inr (gs', U', G')"
    and "dedup_inv U (length (g_heap G E))"
    and "\<forall>a p. U a = Some p \<longrightarrow> gc_value (g_heap G E ! p) = dc_value (heap ! a) \<and>
                               gc_active (g_heap G E ! p) = dc_active (heap ! a)"
  shows "\<forall>a p. U' a = Some p \<longrightarrow> gc_value (g_heap G' E ! p) = dc_value (heap ! a) \<and>
                               gc_active (g_heap G' E ! p) = dc_active (heap ! a)"
proof -
  let ?P = "\<lambda>s. dedup_inv (fst s) (length (g_heap (snd s) E)) \<and>
      (\<forall>a p. fst s a = Some p \<longrightarrow> gc_value (g_heap (snd s) E ! p) = dc_value (heap ! a) \<and>
                               gc_active (g_heap (snd s) E ! p) = dc_active (heap ! a))"
  have "?P (U', G')"
  proof (rule transferComponents_DG_loop_invariant[where P = ?P, OF assms(1)])
    show "?P (U, G)" using assms(2,3) by simp
  next
    fix s dp gp s1
    assume P: "?P s" and step: "unique_insert_DG sz E (heap ! dp) dp s = (gp, s1)"
    obtain U0 G0 where s: "s = (U0, G0)" by (cases s)
    obtain U1 G1 where s1: "s1 = (U1, G1)" by (cases s1)
    have inv0: "dedup_inv U0 (length (g_heap G0 E))" using P s by simp
    have c0: "\<And>a p. U0 a = Some p \<Longrightarrow> gc_value (g_heap G0 E ! p) = dc_value (heap ! a) \<and>
                               gc_active (g_heap G0 E ! p) = dc_active (heap ! a)" using P s by simp
    note inv1 = unique_insert_DG_inv(1)[OF step[unfolded s s1] inv0]
    have "gc_value (g_heap G1 E ! p) = dc_value (heap ! a) \<and>
          gc_active (g_heap G1 E ! p) = dc_active (heap ! a)" if ap: "U1 a = Some p" for a p
      using unique_insert_DG_cases[OF step[unfolded s s1]]
    proof
      assume "U0 dp = Some gp \<and> U1 = U0 \<and> G1 = G0"
      then show ?thesis using c0 ap by simp
    next
      assume a: "U0 dp = None \<and> gp = length (g_heap G0 E) \<and> U1 = U0(dp \<mapsto> gp) \<and>
          G1 = G0\<lparr>g_heap := (g_heap G0)(E := g_heap G0 E @
                     [grid_ParameterComponent_ctor (heap ! dp) (if dc_active (heap ! dp) then parameterCount G0 else - 1)]),
                 parameterCount := parameterCount G0 + (if dc_active (heap ! dp) then int sz else 0),
                 ptrVec := (ptrVec G0)(E := ptrVec G0 E @ (if dc_active (heap ! dp) then [gp] else []))\<rparr>"
      show ?thesis
      proof (cases "a = dp")
        case True
        then have "p = length (g_heap G0 E)" using a ap by simp
        then show ?thesis using a True by (simp add: grid_ParameterComponent_ctor_def)
      next
        case False
        then have old: "U0 a = Some p" using a ap by simp
        then have "p < length (g_heap G0 E)" using inv0 dedup_inv_bound by blast
        then show ?thesis using a c0[OF old] by (simp add: nth_append)
      qed
    qed
    then show "?P s1" using inv1 s1 by simp
  qed
  then show ?thesis by simp
qed

lemma transferComponents_DG_loop_dom:
  assumes "transferComponents_DG_loop sz E heap ds gs (U, G) = Inr (gs', U', G')"
  shows "dom U' \<subseteq> dom U \<union> {a. \<exists>d \<in> set ds. d_component d E = Some a}"
proof -
  let ?P = "\<lambda>s. dom (fst s) \<subseteq> dom U \<union> {a. \<exists>d \<in> set ds. d_component d E = Some a}"
  have "?P (U', G')"
  proof (rule transferComponents_DG_loop_invariant[where P = ?P, OF assms])
    show "?P (U, G)" by simp
  next
    fix s dp gp s1
    assume P: "?P s" and step: "unique_insert_DG sz E (heap ! dp) dp s = (gp, s1)"
      and mem: "\<exists>d \<in> set ds. d_component d E = Some dp"
    obtain U0 G0 where s: "s = (U0, G0)" by (cases s)
    obtain U1 G1 where s1: "s1 = (U1, G1)" by (cases s1)
    from unique_insert_DG_cases[OF step[unfolded s s1]] have "dom U1 \<subseteq> insert dp (dom U0)"
      by auto
    then show "?P s1" using P mem s s1 by auto
  qed
  then show ?thesis by simp
qed

subsection \<open>\<^verbatim>\<open>transferComponents\<close>, Definition \<rightarrow> Grid\<close>

text \<open>
  A transfer of kind \<open>E\<close> that returns, started as \<^verbatim>\<open>initializeGrid\<close> starts it (as many grid
  objects as definition objects, nothing of kind \<open>E\<close> allocated or pointed to yet): the
  pointers of kind \<open>E\<close> of the grid objects are the images of the pointers of the
  definition objects under one injective map onto the new store; each new component
  copies value and flag; the offsets follow the running parameter count; the container
  holds the active components in allocation order; nothing else changes.
\<close>

lemma shared_via_eq_iff:
  assumes "dedup_inv U n" "shared_via U (Some a) p" "shared_via U (Some b) q"
  shows "p = q \<longleftrightarrow> a = b"
proof -
  from assms(2,3) obtain x y where "U a = Some x" "p = Some x" "U b = Some y" "q = Some y"
    by (auto simp: shared_via_def)
  then show ?thesis using dedup_inv_eq_iff[OF assms(1), of a x b y] by simp
qed

lemma shared_via_None_iff: "shared_via U a b \<Longrightarrow> (b = None \<longleftrightarrow> a = None)"
  by (auto simp: shared_via_def split: option.splits)

lemma transferComponents_DG_spec:
  assumes t: "transferComponents_DG ext E input G = Inr G'"
    and len: "length (objects G) = length (def_objects input)"
    and empty: "g_heap G E = []" "ptrVec G E = []"
    and none: "\<forall>g \<in> set (objects G). g_component g E = None"
  shows "\<exists>U. dedup_inv U (length (g_heap G' E)) \<and>
           dom U = {a. \<exists>d \<in> set (def_objects input). d_component d E = Some a} \<and>
           (\<forall>a p. U a = Some p \<longrightarrow> gc_value (g_heap G' E ! p) = dc_value (def_heap input E ! a) \<and>
                                    gc_active (g_heap G' E ! p) = dc_active (def_heap input E ! a)) \<and>
           list_all2 (\<lambda>d g'. shared_via U (d_component d E) (g_component g' E)) (def_objects input) (objects G')"
    and "list_all2 (same_but_component E) (objects G) (objects G')"
    and "G' = G\<lparr>g_heap := g_heap G', parameterCount := parameterCount G', ptrVec := ptrVec G', objects := objects G'\<rparr>"
    and "\<forall>E'. E' \<noteq> E \<longrightarrow> g_heap G' E' = g_heap G E' \<and> ptrVec G' E' = ptrVec G E'"
    and "layout (parameterCount G) (SIZE ext E) (g_heap G' E) (parameterCount G')"
    and "ptrVec G' E = active_refs 0 (g_heap G' E)"
proof -
  let ?ds = "def_objects input"
  from t obtain gs' U G1 where
    loop: "transferComponents_DG_loop (SIZE ext E) E (def_heap input E) ?ds (objects G) (Map.empty, G) = Inr (gs', U, G1)"
    and G': "G' = G1\<lparr>objects := gs'\<rparr>"
    by (auto simp: transferComponents_DG_def split: sum.splits)
  have inv0: "dedup_inv Map.empty (length (g_heap G E))" using empty by (simp add: dedup_inv_empty)
  note spec = transferComponents_DG_loop_spec[OF loop inv0]
  have inv: "dedup_inv U (length (g_heap G1 E))" using spec by simp
  have fr: "transfer_frame E G G1" using spec by simp
  have rel: "list_all2 (\<lambda>(d, g) g'. same_but_component E g g' \<and>
                      (case d_component d E of
                         None \<Rightarrow> g_component g' E = g_component g E
                       | Some a \<Rightarrow> U a \<noteq> None \<and> g_component g' E = U a))
                   (zip ?ds (objects G)) gs'" using spec by simp
  have lgs: "length gs' = length ?ds" using rel len by (auto dest: list_all2_lengthD)
  have nth: "same_but_component E (objects G ! k) (gs' ! k) \<and>
        (case d_component (?ds ! k) E of
                         None \<Rightarrow> g_component (gs' ! k) E = g_component (objects G ! k) E
                       | Some a \<Rightarrow> U a \<noteq> None \<and> g_component (gs' ! k) E = U a)" if "k < length ?ds" for k
    using list_all2_nthD[OF rel, of k] that len by simp
  have dom1: "dom U \<subseteq> {a. \<exists>d \<in> set ?ds. d_component d E = Some a}"
    using transferComponents_DG_loop_dom[OF loop] by simp
  have dom2: "{a. \<exists>d \<in> set ?ds. d_component d E = Some a} \<subseteq> dom U"
  proof
    fix a assume "a \<in> {a. \<exists>d \<in> set ?ds. d_component d E = Some a}"
    then obtain k where k: "k < length ?ds" "d_component (?ds ! k) E = Some a"
      by (auto simp: in_set_conv_nth)
    then show "a \<in> dom U" using nth[OF k(1)] by auto
  qed
  have cp: "\<forall>a p. U a = Some p \<longrightarrow> gc_value (g_heap G1 E ! p) = dc_value (def_heap input E ! a) \<and>
                                    gc_active (g_heap G1 E ! p) = dc_active (def_heap input E ! a)"
    by (rule transferComponents_DG_loop_copies[OF loop inv0]) simp
  have sh: "list_all2 (\<lambda>d g'. shared_via U (d_component d E) (g_component g' E)) ?ds gs'"
  proof (rule list_all2_all_nthI)
    show "length ?ds = length gs'" using lgs by simp
  next
    fix k assume k: "k < length ?ds"
    have "g_component (objects G ! k) E = None" using none k len by simp
    then show "shared_via U (d_component (?ds ! k) E) (g_component (gs' ! k) E)"
      using nth[OF k] by (auto simp: shared_via_def split: option.splits)
  qed
  have "dedup_inv U (length (g_heap G' E)) \<and>
           dom U = {a. \<exists>d \<in> set (def_objects input). d_component d E = Some a} \<and>
           (\<forall>a p. U a = Some p \<longrightarrow> gc_value (g_heap G' E ! p) = dc_value (def_heap input E ! a) \<and>
                                    gc_active (g_heap G' E ! p) = dc_active (def_heap input E ! a)) \<and>
           list_all2 (\<lambda>d g'. shared_via U (d_component d E) (g_component g' E)) (def_objects input) (objects G')"
    using inv dom1 dom2 cp sh by (simp add: G')
  then show "\<exists>U. dedup_inv U (length (g_heap G' E)) \<and>
           dom U = {a. \<exists>d \<in> set (def_objects input). d_component d E = Some a} \<and>
           (\<forall>a p. U a = Some p \<longrightarrow> gc_value (g_heap G' E ! p) = dc_value (def_heap input E ! a) \<and>
                                    gc_active (g_heap G' E ! p) = dc_active (def_heap input E ! a)) \<and>
           list_all2 (\<lambda>d g'. shared_via U (d_component d E) (g_component g' E)) (def_objects input) (objects G')"
    by blast
  show "list_all2 (same_but_component E) (objects G) (objects G')"
  proof (rule list_all2_all_nthI)
    show "length (objects G) = length (objects G')" using lgs len by (simp add: G')
  next
    fix k assume "k < length (objects G)"
    then show "same_but_component E (objects G ! k) (objects G' ! k)" using nth[of k] len by (simp add: G')
  qed
  have G1: "G1 = G\<lparr>g_heap := g_heap G1, parameterCount := parameterCount G1, ptrVec := ptrVec G1\<rparr>"
    using fr by (simp add: transfer_frame_def)
  show "G' = G\<lparr>g_heap := g_heap G', parameterCount := parameterCount G', ptrVec := ptrVec G', objects := objects G'\<rparr>"
    unfolding G' by (subst G1) simp
  show "\<forall>E'. E' \<noteq> E \<longrightarrow> g_heap G' E' = g_heap G E' \<and> ptrVec G' E' = ptrVec G E'"
    using fr by (simp add: transfer_frame_def G')
  from transferComponents_DG_loop_layout[OF loop] obtain news where
    n: "g_heap G1 E = g_heap G E @ news" "layout (parameterCount G) (SIZE ext E) news (parameterCount G1)"
       "ptrVec G1 E = ptrVec G E @ active_refs (length (g_heap G E)) news" by blast
  show "layout (parameterCount G) (SIZE ext E) (g_heap G' E) (parameterCount G')"
    using n empty by (simp add: G')
  show "ptrVec G' E = active_refs 0 (g_heap G' E)"
    using n empty by (simp add: G')
qed

subsection \<open>\<^verbatim>\<open>Source::Source\<close> and the source loops\<close>

text \<open>
  The constructor of a Source reads its Object only through its basis and its position
  pointer. It returns only when the presence of a coordinate system agrees between
  Definition and Frame and the Object has a basis or the Frame has a PSF. It throws one
  of the two coordinate-system exceptions exactly when that presence disagrees.
\<close>

lemma getPosition_getValue_cong:
  "g_component ob' POSITION = g_component ob POSITION \<Longrightarrow>
   getPosition_getValue h ob' = getPosition_getValue h ob"
  by (simp add: getPosition_getValue_def)

lemma Source_ctor_cong:
  assumes "basis ob' = basis ob" "g_component ob' POSITION = g_component ob POSITION"
  shows "Source_ctor h j f i ob' w = Source_ctor h j f i ob w"
proof -
  have 1: "Source_transform h f ob' w = Source_transform h f ob w"
    unfolding Source_transform_def getPosition_getValue_cong[OF assms(2)] by (rule refl)
  have 2: "Source_localPsf h f ob' t = Source_localPsf h f ob t" for t
    unfolding Source_localPsf_def getPosition_getValue_cong[OF assms(2)] by (rule refl)
  have 3: "Source_basis f ob' l = Source_basis f ob l" for l
    unfolding Source_basis_def assms(1) by (rule refl)
  show ?thesis unfolding Source_ctor_def 1 2 3 by (rule refl)
qed

lemma Source_transform_Inr:
  "Source_transform h f ob w = Inr t \<Longrightarrow> (frame_wcs f = None) = (w = None)"
  by (auto simp: Source_transform_def split: option.splits sum.splits)

lemma Source_basis_Inr:
  "Source_basis f ob l = Inr b \<Longrightarrow> basis ob \<noteq> None \<or> frame_psf f \<noteq> None"
  by (auto simp: Source_basis_def split: option.splits)

lemma Source_ctor_Inr:
  assumes "Source_ctor h j f i ob w = Inr s"
  shows "source_frame s = j" "source_object s = i"
    "(frame_wcs f = None) = (w = None)"
    "basis ob \<noteq> None \<or> frame_psf f \<noteq> None"
proof -
  from assms obtain t l b where
    t: "Source_transform h f ob w = Inr t" and l: "Source_localPsf h f ob t = Inr l"
    and b: "Source_basis f ob l = Inr b"
    and s: "s = \<lparr>source_frame = j, source_object = i, source_transform = t,
                 source_localPsf = l, source_basis = b\<rparr>"
    by (auto simp: Source_ctor_def split: sum.splits)
  show "source_frame s = j" "source_object s = i" using s by simp_all
  show "(frame_wcs f = None) = (w = None)" using Source_transform_Inr[OF t] .
  show "basis ob \<noteq> None \<or> frame_psf f \<noteq> None" using Source_basis_Inr[OF b] .
qed

lemma Source_transform_wcs_error_iff:
  "(Source_transform h f ob w = Inl (Exception FrameWithoutWcs) \<or>
    Source_transform h f ob w = Inl (Exception FrameWithWcs)) = ((w = None) \<noteq> (frame_wcs f = None))"
  by (cases w; cases "frame_wcs f"; cases "g_component ob POSITION")
     (simp_all add: Source_transform_def getPosition_getValue_def)

lemma Source_localPsf_no_exception: "Source_localPsf h f ob t \<noteq> Inl (Exception e)"
  by (cases "frame_psf f"; cases "g_component ob POSITION")
     (simp_all add: Source_localPsf_def getPosition_getValue_def)

lemma Source_basis_exception: "Source_basis f ob l = Inl x \<Longrightarrow> x = Exception MissingBasisOrPsf"
  by (cases "basis ob"; cases l; cases "frame_psf f") (simp_all add: Source_basis_def)

lemma Source_ctor_Inl:
  assumes "Source_ctor h j f i ob w = Inl x"
  shows "Source_transform h f ob w = Inl x \<or>
         (\<exists>t. Source_transform h f ob w = Inr t \<and>
            (Source_localPsf h f ob t = Inl x \<or>
             (\<exists>l. Source_localPsf h f ob t = Inr l \<and> Source_basis f ob l = Inl x)))"
  using assms by (auto simp: Source_ctor_def split: sum.splits)

lemma Source_ctor_wcs_error_iff:
  "(Source_ctor h j f i ob w = Inl (Exception FrameWithoutWcs) \<or>
    Source_ctor h j f i ob w = Inl (Exception FrameWithWcs)) = ((w = None) \<noteq> (frame_wcs f = None))"
proof
  assume "Source_ctor h j f i ob w = Inl (Exception FrameWithoutWcs) \<or>
    Source_ctor h j f i ob w = Inl (Exception FrameWithWcs)"
  then obtain e where e: "Source_ctor h j f i ob w = Inl (Exception e)" "e = FrameWithoutWcs \<or> e = FrameWithWcs"
    by blast
  from Source_ctor_Inl[OF e(1)] have "Source_transform h f ob w = Inl (Exception e)"
    using Source_localPsf_no_exception Source_basis_exception e(2) by fastforce
  then show "(w = None) \<noteq> (frame_wcs f = None)"
    using Source_transform_wcs_error_iff[of h f ob w] e(2) by blast
next
  assume "(w = None) \<noteq> (frame_wcs f = None)"
  then have "Source_transform h f ob w = Inl (Exception FrameWithoutWcs) \<or>
    Source_transform h f ob w = Inl (Exception FrameWithWcs)"
    using Source_transform_wcs_error_iff[of h f ob w] by blast
  then show "Source_ctor h j f i ob w = Inl (Exception FrameWithoutWcs) \<or>
    Source_ctor h j f i ob w = Inl (Exception FrameWithWcs)"
    by (auto simp: Source_ctor_def)
qed

lemma Source_ctor_consistent:
  assumes "(frame_wcs f = None) = (w = None)" "g_component ob POSITION \<noteq> None"
  shows "basis ob = None \<and> frame_psf f = None \<Longrightarrow> Source_ctor h j f i ob w = Inl (Exception MissingBasisOrPsf)"
    and "basis ob \<noteq> None \<or> frame_psf f \<noteq> None \<Longrightarrow> \<exists>s. Source_ctor h j f i ob w = Inr s"
proof -
  from assms(2) obtain p where p: "getPosition_getValue h ob = Inr p"
    by (auto simp: getPosition_getValue_def)
  from assms(1) obtain t where t: "Source_transform h f ob w = Inr t"
    by (cases w; cases "frame_wcs f") (auto simp: Source_transform_def p)
  obtain l where l: "Source_localPsf h f ob t = Inr l" "(l = None) = (frame_psf f = None)"
    by (cases "frame_psf f") (auto simp: Source_localPsf_def p)
  show "Source_ctor h j f i ob w = Inl (Exception MissingBasisOrPsf)" if "basis ob = None \<and> frame_psf f = None"
    using that by (simp add: Source_ctor_def t l Source_basis_def)
  show "\<exists>s. Source_ctor h j f i ob w = Inr s" if "basis ob \<noteq> None \<or> frame_psf f \<noteq> None"
    using that l(2) by (cases "basis ob"; cases l) (auto simp: Source_ctor_def t l(1) Source_basis_def)
qed

lemma initializeGrid_sources_Inr:
  assumes "initializeGrid_sources i js G = Inr G'"
  shows "\<exists>srcs. G' = G\<lparr>g_sources_last := g_sources_last G + length js, sources := sources G @ srcs\<rparr> \<and>
           list_all2 (\<lambda>j s. Source_ctor (g_heap G POSITION) j (frames G ! j) i (objects G ! i) (g_wcs G) = Inr s) js srcs"
  using assms
proof (induction js arbitrary: G)
  case Nil
  then have "G' = G\<lparr>g_sources_last := g_sources_last G + length ([]::nat list), sources := sources G @ []\<rparr> \<and>
      list_all2 (\<lambda>j s. Source_ctor (g_heap G POSITION) j (frames G ! j) i (objects G ! i) (g_wcs G) = Inr s) [] []"
    by simp
  then show ?case by blast
next
  case (Cons j js)
  let ?G1 = "G\<lparr>g_sources_last := g_sources_last G + 1\<rparr>"
  from Cons.prems obtain src where
    src: "Source_ctor (g_heap G POSITION) j (frames G ! j) i (objects G ! i) (g_wcs G) = Inr src"
    and rec: "initializeGrid_sources i js (?G1\<lparr>sources := sources ?G1 @ [src]\<rparr>) = Inr G'"
    by (auto simp: Let_def split: sum.splits)
  from Cons.IH[OF rec] obtain srcs where
    G': "G' = G\<lparr>g_sources_last := g_sources_last G + 1 + length js, sources := (sources G @ [src]) @ srcs\<rparr>"
    and all: "list_all2 (\<lambda>j s. Source_ctor (g_heap G POSITION) j (frames G ! j) i (objects G ! i) (g_wcs G) = Inr s) js srcs"
    by auto
  have "G' = G\<lparr>g_sources_last := g_sources_last G + length (j # js), sources := sources G @ (src # srcs)\<rparr>"
    using G' by simp
  moreover have "list_all2 (\<lambda>j s. Source_ctor (g_heap G POSITION) j (frames G ! j) i (objects G ! i) (g_wcs G) = Inr s)
      (j # js) (src # srcs)" using src all by simp
  ultimately show ?case by blast
qed

lemma initializeGrid_sources_Inl:
  assumes "initializeGrid_sources i js G = Inl (f, G')"
  shows "\<exists>js1 j js2 srcs. js = js1 @ j # js2 \<and>
           list_all2 (\<lambda>j s. Source_ctor (g_heap G POSITION) j (frames G ! j) i (objects G ! i) (g_wcs G) = Inr s) js1 srcs \<and>
           Source_ctor (g_heap G POSITION) j (frames G ! j) i (objects G ! i) (g_wcs G) = Inl f \<and>
           G' = G\<lparr>g_sources_last := g_sources_last G + length js1 + 1, sources := sources G @ srcs\<rparr>"
  using assms
proof (induction js arbitrary: G)
  case Nil
  then show ?case by simp
next
  case (Cons j js)
  let ?G1 = "G\<lparr>g_sources_last := g_sources_last G + 1\<rparr>"
  show ?case
  proof (cases "Source_ctor (g_heap G POSITION) j (frames G ! j) i (objects G ! i) (g_wcs G)")
    case (Inl f')
    then have f: "f' = f" and G': "G' = ?G1" using Cons.prems by (auto simp: Let_def)
    have "j # js = [] @ j # js \<and>
           list_all2 (\<lambda>j s. Source_ctor (g_heap G POSITION) j (frames G ! j) i (objects G ! i) (g_wcs G) = Inr s) [] [] \<and>
           Source_ctor (g_heap G POSITION) j (frames G ! j) i (objects G ! i) (g_wcs G) = Inl f \<and>
           G' = G\<lparr>g_sources_last := g_sources_last G + length ([]::nat list) + 1, sources := sources G @ []\<rparr>"
      using Inl f G' by simp
    then show ?thesis by blast
  next
    case (Inr src)
    then have rec: "initializeGrid_sources i js (?G1\<lparr>sources := sources ?G1 @ [src]\<rparr>) = Inl (f, G')"
      using Cons.prems by (simp add: Let_def)
    from Cons.IH[OF rec] obtain js1 j' js2 srcs where
      js: "js = js1 @ j' # js2"
      and all: "list_all2 (\<lambda>j s. Source_ctor (g_heap G POSITION) j (frames G ! j) i (objects G ! i) (g_wcs G) = Inr s) js1 srcs"
      and fail: "Source_ctor (g_heap G POSITION) j' (frames G ! j') i (objects G ! i) (g_wcs G) = Inl f"
      and G': "G' = G\<lparr>g_sources_last := g_sources_last G + 1 + length js1 + 1, sources := (sources G @ [src]) @ srcs\<rparr>"
      by auto
    have "j # js = (j # js1) @ j' # js2 \<and>
           list_all2 (\<lambda>j s. Source_ctor (g_heap G POSITION) j (frames G ! j) i (objects G ! i) (g_wcs G) = Inr s) (j # js1) (src # srcs) \<and>
           Source_ctor (g_heap G POSITION) j' (frames G ! j') i (objects G ! i) (g_wcs G) = Inl f \<and>
           G' = G\<lparr>g_sources_last := g_sources_last G + length (j # js1) + 1, sources := sources G @ (src # srcs)\<rparr>"
      using js all fail G' Inr by simp
    then show ?thesis by blast
  qed
qed

text \<open>
  The body of the object loop, when it returns and when it fails, and the two ways to
  reason about the loop: an invariant that each returning body preserves holds at the
  end, and a failure of the loop is the failure of one body started in a state that
  satisfies the invariant.
\<close>

lemma upt_eq_append_Cons:
  assumes "[0..<n] = xs @ j # ys"
  shows "j = length xs" "xs = [0..<j]" "j < n"
proof -
  have len: "length xs < n" using arg_cong[OF assms, of length] by simp
  have "[0..<n] ! length xs = j" using assms by simp
  then show j: "j = length xs" using len by simp
  have "take (length xs) [0..<n] = xs" using assms by simp
  then show "xs = [0..<j]" using len j by (simp add: take_upt)
  show "j < n" using len j by simp
qed

lemma initializeGrid_object_Inr:
  assumes "initializeGrid_object ext i G = Inr G'" "i < length (objects G)"
  shows "validate ext (g_heap G) (objects G ! i)"
    and "\<exists>srcs. list_all2 (\<lambda>j s. Source_ctor (g_heap G POSITION) j (frames G ! j) i (objects G ! i) (g_wcs G) = Inr s)
                  [0..<frames_last G] srcs \<and>
           G' = G\<lparr>g_sources_last := g_sources_last G + frames_last G, sources := sources G @ srcs,
                  objects := (objects G)[i := (objects G ! i)\<lparr>sources_first := g_sources_last G,
                                sources_last := g_sources_last G + frames_last G\<rparr>]\<rparr>"
proof -
  show v: "validate ext (g_heap G) (objects G ! i)"
    using assms(1) by (auto simp: initializeGrid_object_def split: if_splits)
  let ?G1 = "G\<lparr>objects := (objects G)[i := (objects G ! i)\<lparr>sources_first := g_sources_last G\<rparr>]\<rparr>"
  from assms(1) v obtain G2 where
    inner: "initializeGrid_sources i [0..<frames_last G] ?G1 = Inr G2"
    and G': "G' = G2\<lparr>objects := (objects G2)[i := (objects G2 ! i)\<lparr>sources_last := g_sources_last G2\<rparr>]\<rparr>"
    by (auto simp: initializeGrid_object_def Let_def split: sum.splits)
  from initializeGrid_sources_Inr[OF inner] obtain srcs where
    G2: "G2 = ?G1\<lparr>g_sources_last := g_sources_last G + length [0..<frames_last G], sources := sources G @ srcs\<rparr>"
    and all: "list_all2 (\<lambda>j s. Source_ctor (g_heap ?G1 POSITION) j (frames ?G1 ! j) i (objects ?G1 ! i) (g_wcs ?G1) = Inr s)
                [0..<frames_last G] srcs"
    by auto
  have cong: "Source_ctor (g_heap ?G1 POSITION) j (frames ?G1 ! j) i (objects ?G1 ! i) (g_wcs ?G1)
            = Source_ctor (g_heap G POSITION) j (frames G ! j) i (objects G ! i) (g_wcs G)" for j
  proof -
    have "Source_ctor (g_heap G POSITION) j (frames G ! j) i
            ((objects G ! i)\<lparr>sources_first := g_sources_last G\<rparr>) (g_wcs G)
        = Source_ctor (g_heap G POSITION) j (frames G ! j) i (objects G ! i) (g_wcs G)"
      by (rule Source_ctor_cong) simp_all
    then show ?thesis using assms(2) by simp
  qed
  have all': "list_all2 (\<lambda>j s. Source_ctor (g_heap G POSITION) j (frames G ! j) i (objects G ! i) (g_wcs G) = Inr s)
                [0..<frames_last G] srcs"
    using all unfolding cong .
  have "G' = G\<lparr>g_sources_last := g_sources_last G + frames_last G, sources := sources G @ srcs,
                  objects := (objects G)[i := (objects G ! i)\<lparr>sources_first := g_sources_last G,
                                sources_last := g_sources_last G + frames_last G\<rparr>]\<rparr>"
    unfolding G' G2 using assms(2) by simp
  then show "\<exists>srcs. list_all2 (\<lambda>j s. Source_ctor (g_heap G POSITION) j (frames G ! j) i (objects G ! i) (g_wcs G) = Inr s)
                  [0..<frames_last G] srcs \<and>
           G' = G\<lparr>g_sources_last := g_sources_last G + frames_last G, sources := sources G @ srcs,
                  objects := (objects G)[i := (objects G ! i)\<lparr>sources_first := g_sources_last G,
                                sources_last := g_sources_last G + frames_last G\<rparr>]\<rparr>"
    using all' by blast
qed

lemma initializeGrid_object_Inl:
  assumes "initializeGrid_object ext i G = Inl (f, G')" "i < length (objects G)"
  shows "(f = Exception ValidateFailed \<and> \<not> validate ext (g_heap G) (objects G ! i) \<and> G' = G) \<or>
         (validate ext (g_heap G) (objects G ! i) \<and>
          (\<exists>j srcs. j < frames_last G \<and> length srcs = j \<and>
             (\<forall>j' < j. Source_ctor (g_heap G POSITION) j' (frames G ! j') i (objects G ! i) (g_wcs G) = Inr (srcs ! j')) \<and>
             Source_ctor (g_heap G POSITION) j (frames G ! j) i (objects G ! i) (g_wcs G) = Inl f \<and>
             G' = G\<lparr>g_sources_last := g_sources_last G + j + 1, sources := sources G @ srcs,
                    objects := (objects G)[i := (objects G ! i)\<lparr>sources_first := g_sources_last G\<rparr>]\<rparr>))"
proof (cases "validate ext (g_heap G) (objects G ! i)")
  case False
  then show ?thesis using assms(1) by (simp add: initializeGrid_object_def)
next
  case True
  let ?G1 = "G\<lparr>objects := (objects G)[i := (objects G ! i)\<lparr>sources_first := g_sources_last G\<rparr>]\<rparr>"
  from assms(1) True have
    inner: "initializeGrid_sources i [0..<frames_last G] ?G1 = Inl (f, G')"
    by (auto simp: initializeGrid_object_def Let_def split: sum.splits)
  have cong: "Source_ctor (g_heap ?G1 POSITION) j (frames ?G1 ! j) i (objects ?G1 ! i) (g_wcs ?G1)
            = Source_ctor (g_heap G POSITION) j (frames G ! j) i (objects G ! i) (g_wcs G)" for j
  proof -
    have "Source_ctor (g_heap G POSITION) j (frames G ! j) i
            ((objects G ! i)\<lparr>sources_first := g_sources_last G\<rparr>) (g_wcs G)
        = Source_ctor (g_heap G POSITION) j (frames G ! j) i (objects G ! i) (g_wcs G)"
      by (rule Source_ctor_cong) simp_all
    then show ?thesis using assms(2) by simp
  qed
  from initializeGrid_sources_Inl[OF inner, unfolded cong] obtain js1 j js2 srcs where
    js: "[0..<frames_last G] = js1 @ j # js2"
    and all: "list_all2 (\<lambda>j s. Source_ctor (g_heap G POSITION) j (frames G ! j) i (objects G ! i) (g_wcs G) = Inr s) js1 srcs"
    and fail: "Source_ctor (g_heap G POSITION) j (frames G ! j) i (objects G ! i) (g_wcs G) = Inl f"
    and G': "G' = ?G1\<lparr>g_sources_last := g_sources_last ?G1 + length js1 + 1, sources := sources ?G1 @ srcs\<rparr>"
    by blast
  note u = upt_eq_append_Cons[OF js]
  have ls: "length srcs = j" using list_all2_lengthD[OF all] u(1) by simp
  have pre: "Source_ctor (g_heap G POSITION) j' (frames G ! j') i (objects G ! i) (g_wcs G) = Inr (srcs ! j')"
    if "j' < j" for j'
  proof -
    have len1: "length js1 = j" using u(1) by simp
    have "[0..<j] ! j' = j'" using that by simp
    then have nth1: "js1 ! j' = j'" using u(2) by simp
    show ?thesis using list_all2_nthD[OF all, of j'] that len1 nth1 by simp
  qed
  have "G' = G\<lparr>g_sources_last := g_sources_last G + j + 1, sources := sources G @ srcs,
                    objects := (objects G)[i := (objects G ! i)\<lparr>sources_first := g_sources_last G\<rparr>]\<rparr>"
    unfolding G' using u(1) by simp
  then show ?thesis using True u(3) ls pre fail by blast
qed

lemma initializeGrid_validate_sources_invariant:
  assumes "initializeGrid_validate_sources ext [a..<b] G = Inr G'"
    and "P a G"
    and "\<And>i G G1. a \<le> i \<Longrightarrow> i < b \<Longrightarrow> P i G \<Longrightarrow> initializeGrid_object ext i G = Inr G1 \<Longrightarrow> P (Suc i) G1"
    and "a \<le> b"
  shows "P b G'"
  using assms
proof (induction "b - a" arbitrary: a G)
  case 0
  then show ?case by simp
next
  case (Suc n)
  then have ab: "a < b" by simp
  then have upt: "[a..<b] = a # [Suc a..<b]" by (simp add: upt_conv_Cons)
  from Suc.prems(1) obtain G1 where
    step: "initializeGrid_object ext a G = Inr G1"
    and rec: "initializeGrid_validate_sources ext [Suc a..<b] G1 = Inr G'"
    by (auto simp: upt split: sum.splits)
  have P1: "P (Suc a) G1" using Suc.prems(3)[OF _ ab Suc.prems(2) step] by simp
  have n: "n = b - Suc a" using Suc.hyps(2) by simp
  show ?case
  proof (rule Suc.hyps(1)[OF n rec P1])
    fix i G G1 assume "Suc a \<le> i" "i < b" "P i G" "initializeGrid_object ext i G = Inr G1"
    then show "P (Suc i) G1" using Suc.prems(3)[of i G G1] by simp
  next
    show "Suc a \<le> b" using ab by simp
  qed
qed

lemma initializeGrid_validate_sources_failure:
  assumes "initializeGrid_validate_sources ext [a..<b] G = Inl (f, Gf)"
    and "P a G"
    and "\<And>i G G1. a \<le> i \<Longrightarrow> i < b \<Longrightarrow> P i G \<Longrightarrow> initializeGrid_object ext i G = Inr G1 \<Longrightarrow> P (Suc i) G1"
  shows "\<exists>i G0. a \<le> i \<and> i < b \<and> P i G0 \<and> initializeGrid_object ext i G0 = Inl (f, Gf)"
  using assms
proof (induction "b - a" arbitrary: a G)
  case 0
  then show ?case by simp
next
  case (Suc n)
  then have ab: "a < b" by simp
  then have upt: "[a..<b] = a # [Suc a..<b]" by (simp add: upt_conv_Cons)
  show ?case
  proof (cases "initializeGrid_object ext a G")
    case (Inl x)
    then have "initializeGrid_object ext a G = Inl (f, Gf)" using Suc.prems(1) by (simp add: upt)
    then show ?thesis using ab Suc.prems(2) by blast
  next
    case (Inr G1)
    then have rec: "initializeGrid_validate_sources ext [Suc a..<b] G1 = Inl (f, Gf)"
      using Suc.prems(1) by (simp add: upt)
    have P1: "P (Suc a) G1" using Suc.prems(3)[OF _ ab Suc.prems(2) Inr] by simp
    have n: "n = b - Suc a" using Suc.hyps(2) by simp
    have "\<exists>i G0. Suc a \<le> i \<and> i < b \<and> P i G0 \<and> initializeGrid_object ext i G0 = Inl (f, Gf)"
    proof (rule Suc.hyps(1)[OF n rec P1])
      fix i G G1 assume "Suc a \<le> i" "i < b" "P i G" "initializeGrid_object ext i G = Inr G1"
      then show "P (Suc i) G1" using Suc.prems(3)[of i G G1] by simp
    qed
    then show ?thesis by (meson Suc_leD)
  qed
qed

text \<open>
  The loop invariant \<open>sources_inv\<close> holds before the first object and each returning
  body takes it from one object to the next.
\<close>

lemma chunk_index_less: "k < i \<Longrightarrow> j < N \<Longrightarrow> k * N + j < i * (N::nat)"
proof -
  assume a: "k < i" "j < N"
  have "Suc k * N \<le> i * N" using a(1) by (intro mult_le_mono1) simp
  then show ?thesis using a(2) by simp
qed

lemma sources_inv_init:
  assumes "sources G0 = []" "g_sources_last G0 = 0"
  shows "sources_inv ext G0 0 G0"
  using assms by (simp add: sources_inv_def)

lemma sources_inv_fields:
  assumes "sources_inv ext G0 i G"
  shows "g_heap G = g_heap G0" "frames G = frames G0" "frames_last G = frames_last G0"
    "g_wcs G = g_wcs G0" "ptrVec G = ptrVec G0" "parameterCount G = parameterCount G0"
    "objects_last G = objects_last G0" "sourceData G = sourceData G0"
    "length (objects G) = length (objects G0)"
    "g_sources_last G = i * frames_last G0" "length (sources G) = i * frames_last G0"
proof -
  have G: "G = G0\<lparr>objects := objects G, sources := sources G, g_sources_last := g_sources_last G\<rparr>"
    using assms unfolding sources_inv_def Let_def by blast
  show "g_heap G = g_heap G0" by (subst G) simp
  show "frames G = frames G0" by (subst G) simp
  show "frames_last G = frames_last G0" by (subst G) simp
  show "g_wcs G = g_wcs G0" by (subst G) simp
  show "ptrVec G = ptrVec G0" by (subst G) simp
  show "parameterCount G = parameterCount G0" by (subst G) simp
  show "objects_last G = objects_last G0" by (subst G) simp
  show "sourceData G = sourceData G0" by (subst G) simp
  show "length (objects G) = length (objects G0)" "g_sources_last G = i * frames_last G0"
    "length (sources G) = i * frames_last G0"
    using assms unfolding sources_inv_def Let_def by blast+
qed

lemma sources_inv_step:
  assumes inv: "sources_inv ext G0 i G" and i: "i < length (objects G0)"
    and step: "initializeGrid_object ext i G = Inr G1"
  shows "sources_inv ext G0 (Suc i) G1"
proof -
  let ?N = "frames_last G0"
  note f = sources_inv_fields[OF inv]
  have G: "G = G0\<lparr>objects := objects G, sources := sources G, g_sources_last := g_sources_last G\<rparr>"
    using inv unfolding sources_inv_def Let_def by blast
  have obs: "\<And>k. k < length (objects G0) \<Longrightarrow> objects G ! k =
           (if k < i then (objects G0 ! k)\<lparr>sources_first := k * ?N, sources_last := k * ?N + ?N\<rparr>
            else objects G0 ! k)"
    using inv unfolding sources_inv_def Let_def by blast
  have old: "\<And>k j. k < i \<Longrightarrow> validate ext (g_heap G0) (objects G0 ! k) \<and>
         (j < ?N \<longrightarrow> Source_ctor (g_heap G0 POSITION) j (frames G0 ! j) k (objects G0 ! k) (g_wcs G0)
                    = Inr (sources G ! (k * ?N + j)))"
    using inv unfolding sources_inv_def Let_def by blast
  have iG: "i < length (objects G)" using i f(9) by simp
  have obi: "objects G ! i = objects G0 ! i" using obs[OF i] by simp
  note r = initializeGrid_object_Inr[OF step iG]
  have v: "validate ext (g_heap G0) (objects G0 ! i)" using r(1) f(1) obi by simp
  from r(2) obtain srcs where
    all: "list_all2 (\<lambda>j s. Source_ctor (g_heap G0 POSITION) j (frames G0 ! j) i (objects G0 ! i) (g_wcs G0) = Inr s)
                  [0..<?N] srcs"
    and G1: "G1 = G\<lparr>g_sources_last := i * ?N + ?N, sources := sources G @ srcs,
                  objects := (objects G)[i := (objects G0 ! i)\<lparr>sources_first := i * ?N,
                                sources_last := i * ?N + ?N\<rparr>]\<rparr>"
    unfolding f(1,2,3,4,10) obi by blast
  have ls: "length srcs = ?N" using list_all2_lengthD[OF all] by simp
  have new: "Source_ctor (g_heap G0 POSITION) j (frames G0 ! j) i (objects G0 ! i) (g_wcs G0) = Inr (srcs ! j)"
    if "j < ?N" for j
    using list_all2_nthD[OF all, of j] that by simp
  have c1: "G1 = G0\<lparr>objects := objects G1, sources := sources G1, g_sources_last := g_sources_last G1\<rparr>"
    unfolding G1 by (subst G) simp
  have c2: "length (objects G1) = length (objects G0)" using f(9) by (simp add: G1)
  have c3: "objects G1 ! k =
           (if k < Suc i then (objects G0 ! k)\<lparr>sources_first := k * ?N, sources_last := k * ?N + ?N\<rparr>
            else objects G0 ! k)" if k: "k < length (objects G0)" for k
  proof (cases "k = i")
    case True
    then show ?thesis using iG by (simp add: G1)
  next
    case False
    then have "objects G1 ! k = objects G ! k" by (simp add: G1)
    then show ?thesis using obs[OF k] False by auto
  qed
  have c4: "g_sources_last G1 = Suc i * ?N" by (simp add: G1)
  have c5: "length (sources G1) = Suc i * ?N" using f(11) ls by (simp add: G1)
  have c6: "validate ext (g_heap G0) (objects G0 ! k) \<and>
         (\<forall>j < ?N. Source_ctor (g_heap G0 POSITION) j (frames G0 ! j) k (objects G0 ! k) (g_wcs G0)
                    = Inr (sources G1 ! (k * ?N + j)))" if k: "k < Suc i" for k
  proof (cases "k = i")
    case True
    have "sources G1 ! (i * ?N + j) = srcs ! j" for j
      using f(11) by (simp add: G1 nth_append)
    then show ?thesis using v new True by simp
  next
    case False
    then have ki: "k < i" using k by simp
    have "sources G1 ! (k * ?N + j) = sources G ! (k * ?N + j)" if "j < ?N" for j
      using chunk_index_less[OF ki that] f(11) by (simp add: G1 nth_append)
    then show ?thesis using old[OF ki] by simp
  qed
  show ?thesis
    unfolding sources_inv_def Let_def using c1 c2 c3 c4 c5 c6 by blast
qed

lemma initializeGrid_validate_sources_Inr:
  assumes "initializeGrid_validate_sources ext [0..<length (objects G0)] G0 = Inr G"
    and "sources G0 = []" "g_sources_last G0 = 0"
  shows "sources_inv ext G0 (length (objects G0)) G"
proof (rule initializeGrid_validate_sources_invariant[where P = "sources_inv ext G0", OF assms(1)])
  show "sources_inv ext G0 0 G0" by (rule sources_inv_init[OF assms(2,3)])
next
  fix i G G1
  assume "0 \<le> i" "i < length (objects G0)" "sources_inv ext G0 i G" "initializeGrid_object ext i G = Inr G1"
  then show "sources_inv ext G0 (Suc i) G1" using sources_inv_step by blast
qed simp

lemma initializeGrid_validate_sources_Inl:
  assumes "initializeGrid_validate_sources ext [0..<length (objects G0)] G0 = Inl (f, Gf)"
    and "sources G0 = []" "g_sources_last G0 = 0"
  shows "\<exists>i G. i < length (objects G0) \<and> sources_inv ext G0 i G \<and> initializeGrid_object ext i G = Inl (f, Gf)"
proof -
  have "\<exists>i G. 0 \<le> i \<and> i < length (objects G0) \<and> sources_inv ext G0 i G \<and>
           initializeGrid_object ext i G = Inl (f, Gf)"
  proof (rule initializeGrid_validate_sources_failure[where P = "sources_inv ext G0", OF assms(1)])
    show "sources_inv ext G0 0 G0" by (rule sources_inv_init[OF assms(2,3)])
  next
    fix i G G1
    assume "0 \<le> i" "i < length (objects G0)" "sources_inv ext G0 i G" "initializeGrid_object ext i G = Inr G1"
    then show "sources_inv ext G0 (Suc i) G1" using sources_inv_step by blast
  qed
  then show ?thesis by blast
qed

subsection \<open>The Grid after the three transfers\<close>

text \<open>
  A transfer whose grid objects are not more than the definition objects always
  returns: \<^verbatim>\<open>di\<close> is never read at the end of the definition objects.
\<close>

lemma transferComponents_DG_loop_total:
  "length gs \<le> length ds \<Longrightarrow> \<exists>r. transferComponents_DG_loop sz E heap ds gs s = Inr r"
proof (induction gs arbitrary: ds s)
  case Nil
  then show ?case by simp
next
  case (Cons g gis)
  then obtain d dis where ds: "ds = d # dis" by (cases ds) auto
  have le: "length gis \<le> length dis" using Cons.prems ds by simp
  show ?case
  proof (cases "d_component d E")
    case None
    from Cons.IH[OF le, of s] obtain r where "transferComponents_DG_loop sz E heap dis gis s = Inr r" by blast
    then show ?thesis by (cases r) (simp add: ds None)
  next
    case (Some dp)
    obtain gp s1 where step: "unique_insert_DG sz E (heap ! dp) dp s = (gp, s1)"
      by (cases "unique_insert_DG sz E (heap ! dp) dp s") auto
    from Cons.IH[OF le, of s1] obtain r where "transferComponents_DG_loop sz E heap dis gis s1 = Inr r" by blast
    then show ?thesis by (cases r) (simp add: ds Some step)
  qed
qed

lemma transferComponents_DG_total:
  assumes "length (objects G) \<le> length (def_objects input)"
  shows "\<exists>G'. transferComponents_DG ext E input G = Inr G'"
proof -
  from transferComponents_DG_loop_total[OF assms] obtain r where
    "transferComponents_DG_loop (SIZE ext E) E (def_heap input E) (def_objects input) (objects G) (Map.empty, G) = Inr r"
    by blast
  then show ?thesis by (cases r) (simp add: transferComponents_DG_def)
qed

lemma kind_ok_preserved:
  assumes ok: "kind_ok D G E" and ne: "E' \<noteq> E"
    and same: "list_all2 (same_but_component E') (objects G) (objects G')"
    and heap: "g_heap G' E = g_heap G E" and pv: "ptrVec G' E = ptrVec G E"
  shows "kind_ok D G' E"
proof -
  from ok obtain U where U: "dedup_inv U (length (g_heap G E))"
    "dom U = {a. \<exists>d \<in> set (def_objects D). d_component d E = Some a}"
    "\<forall>a p. U a = Some p \<longrightarrow>
             gc_value (g_heap G E ! p) = dc_value (def_heap D E ! a) \<and>
             gc_active (g_heap G E ! p) = dc_active (def_heap D E ! a)"
    "list_all2 (\<lambda>d g. shared_via U (d_component d E) (g_component g E)) (def_objects D) (objects G)"
    "ptrVec G E = active_refs 0 (g_heap G E)"
    unfolding kind_ok_def by blast
  have "list_all2 (\<lambda>d g. shared_via U (d_component d E) (g_component g E)) (def_objects D) (objects G')"
  proof (rule list_all2_all_nthI)
    show "length (def_objects D) = length (objects G')"
      using list_all2_lengthD[OF U(4)] list_all2_lengthD[OF same] by simp
  next
    fix k assume k: "k < length (def_objects D)"
    then have kG: "k < length (objects G)" using list_all2_lengthD[OF U(4)] by simp
    have "same_but_component E' (objects G ! k) (objects G' ! k)"
      using list_all2_nthD[OF same kG] .
    then have "g_component (objects G' ! k) E = g_component (objects G ! k) E"
      using ne by (simp add: same_but_component_def)
    then show "shared_via U (d_component (def_objects D ! k) E) (g_component (objects G' ! k) E)"
      using list_all2_nthD[OF U(4) k] by simp
  qed
  then show ?thesis unfolding kind_ok_def using U(1,2,3,5) heap pv by auto
qed

lemma same_but_component_fields:
  assumes "same_but_component E g g'"
  shows "object_id g' = object_id g" "basis g' = basis g"
    "sources_first g' = sources_first g" "sources_last g' = sources_last g"
    "E' \<noteq> E \<Longrightarrow> g_component g' E' = g_component g E'"
proof -
  have eq: "g' = g\<lparr>g_component := g_component g'\<rparr>" using assms by (simp add: same_but_component_def)
  show "object_id g' = object_id g" by (subst eq) simp
  show "basis g' = basis g" by (subst eq) simp
  show "sources_first g' = sources_first g" by (subst eq) simp
  show "sources_last g' = sources_last g" by (subst eq) simp
  show "E' \<noteq> E \<Longrightarrow> g_component g' E' = g_component g E'" using assms by (simp add: same_but_component_def)
qed

text \<open>
  From a Grid with nothing constructed yet, the \<^verbatim>\<open>try\<close> block always reaches the loop over
  the objects (line 132), in a state that satisfies \<open>components_ok\<close>: the frame loop, the
  object loop and the three transfers cannot fail.
\<close>

lemma transferComponents_DG_fields:
  assumes "G' = G\<lparr>g_heap := h, parameterCount := p, ptrVec := v, objects := os\<rparr>"
  shows "frames G' = frames G" "frames_last G' = frames_last G" "objects_last G' = objects_last G"
    "sources G' = sources G" "g_sources_last G' = g_sources_last G" "g_wcs G' = g_wcs G"
    "sourceData G' = sourceData G" "objectData G' = objectData G" "frameData G' = frameData G"
  using assms by simp_all

lemma initializeGrid_try_components:
  assumes init: "objects Gi = []" "frames Gi = []" "sources Gi = []" "objects_last Gi = 0"
    "frames_last Gi = 0" "g_sources_last Gi = 0" "g_heap Gi = (\<lambda>E. [])" "ptrVec Gi = (\<lambda>E. [])"
    "parameterCount Gi = 0"
  shows "\<exists>G5. components_ok ext D G5 \<and> g_wcs G5 = g_wcs Gi \<and> sourceData G5 = sourceData Gi \<and>
           objectData G5 = objectData Gi \<and> frameData G5 = frameData Gi \<and>
           initializeGrid_registered ext D Gi = Inr G5 \<and>
           initializeGrid_try ext D Gi
             = initializeGrid_validate_sources ext [0..<length (def_objects D)] G5"
proof -
  let ?ds = "def_objects D"
  obtain c G1 where fr: "initializeGrid_frames (def_frames D) 0 Gi = (c, G1)"
    by (cases "initializeGrid_frames (def_frames D) 0 Gi") auto
  note f = initializeGrid_frames_spec[OF fr]
  define G2 where "G2 = initializeGrid_objects ext ?ds G1"
  note o = initializeGrid_objects_spec[of ext ?ds G1, folded G2_def]
  have fr1: "list_all2 (\<lambda>d g. frame_id g = frame_id d \<and> frame_psf g = frame_psf d \<and> frame_wcs g = frame_wcs d)
                (def_frames D) (frames G1)"
    using f init(2) by auto
  have ob2: "list_all2 (\<lambda>d g. object_id g = object_id d \<and> basis g = basis d \<and> g_component g = (\<lambda>E. None)
                       \<and> sources_first g = 0 \<and> sources_last g = 0) ?ds (objects G2)"
    using o f init(1) by auto
  have G2f: "frames G2 = frames G1" "frames_last G2 = length (def_frames D)"
    "objects_last G2 = length ?ds" "sources G2 = []" "g_sources_last G2 = 0"
    "g_heap G2 = (\<lambda>E. [])" "ptrVec G2 = (\<lambda>E. [])" "parameterCount G2 = 0"
    "g_wcs G2 = g_wcs Gi" "sourceData G2 = sourceData Gi" "objectData G2 = objectData Gi"
    "frameData G2 = frameData Gi"
    using o f init by simp_all
  have len2: "length (objects G2) = length ?ds" using list_all2_lengthD[OF ob2] by simp
  have none2: "\<forall>g \<in> set (objects G2). g_component g E = None" for E
    using ob2 by (auto simp: list_all2_conv_all_nth in_set_conv_nth)
  obtain G3 where t3: "transferComponents_DG ext POSITION D G2 = Inr G3"
    using transferComponents_DG_total[of G2 D ext POSITION] len2 by auto
  note s3 = transferComponents_DG_spec[OF t3 len2 _ _ none2, unfolded G2f, simplified]
  note f3 = transferComponents_DG_fields[OF s3(3)]
  have k3: "kind_ok D G3 POSITION" unfolding kind_ok_def using s3(1,6) by blast
  have len3: "length (objects G3) = length ?ds" using list_all2_lengthD[OF s3(2)] len2 by simp
  have none3: "\<forall>g \<in> set (objects G3). g_component g E = None" if "E \<noteq> POSITION" for E
  proof
    fix g assume "g \<in> set (objects G3)"
    then obtain k where k: "k < length (objects G3)" "objects G3 ! k = g" by (auto simp: in_set_conv_nth)
    have "same_but_component POSITION (objects G2 ! k) g"
      using list_all2_nthD2[OF s3(2) k(1)] k(2) by simp
    then have "g_component g E = g_component (objects G2 ! k) E"
      using same_but_component_fields(5)[of POSITION _ g E] that by simp
    then show "g_component g E = None" using none2[of E] k(1) len3 len2 by simp
  qed
  obtain G4 where t4: "transferComponents_DG ext RADIUS D G3 = Inr G4"
    using transferComponents_DG_total[of G3 D ext RADIUS] len3 by auto
  have e3: "g_heap G3 RADIUS = []" "ptrVec G3 RADIUS = []" using s3(4) G2f by simp_all
  note s4 = transferComponents_DG_spec[OF t4 len3 e3 none3, simplified]
  note f4 = transferComponents_DG_fields[OF s4(3)]
  have k4: "kind_ok D G4 RADIUS" unfolding kind_ok_def using s4(1,6) by blast
  have k4p: "kind_ok D G4 POSITION"
    using kind_ok_preserved[OF k3 _ s4(2)] s4(4) by simp
  have len4: "length (objects G4) = length ?ds" using list_all2_lengthD[OF s4(2)] len3 by simp
  have none4: "\<forall>g \<in> set (objects G4). g_component g ELLIPTICITY = None"
  proof
    fix g assume "g \<in> set (objects G4)"
    then obtain k where k: "k < length (objects G4)" "objects G4 ! k = g" by (auto simp: in_set_conv_nth)
    have "same_but_component RADIUS (objects G3 ! k) g"
      using list_all2_nthD2[OF s4(2) k(1)] k(2) by simp
    then have "g_component g ELLIPTICITY = g_component (objects G3 ! k) ELLIPTICITY"
      using same_but_component_fields(5)[of RADIUS _ g ELLIPTICITY] by simp
    then show "g_component g ELLIPTICITY = None" using none3[of ELLIPTICITY] k(1) len4 len3 by simp
  qed
  obtain G5 where t5: "transferComponents_DG ext ELLIPTICITY D G4 = Inr G5"
    using transferComponents_DG_total[of G4 D ext ELLIPTICITY] len4 by auto
  have e4: "g_heap G4 ELLIPTICITY = []" "ptrVec G4 ELLIPTICITY = []"
    using s4(4) s3(4) G2f by simp_all
  note s5 = transferComponents_DG_spec[OF t5 len4 e4 none4, simplified]
  note f5 = transferComponents_DG_fields[OF s5(3)]
  have k5: "kind_ok D G5 ELLIPTICITY" unfolding kind_ok_def using s5(1,6) by blast
  have k5p: "kind_ok D G5 POSITION"
    using kind_ok_preserved[OF k4p _ s5(2)] s5(4) by simp
  have k5r: "kind_ok D G5 RADIUS"
    using kind_ok_preserved[OF k4 _ s5(2)] s5(4) by simp
  have kall: "\<forall>E. kind_ok D G5 E"
  proof
    fix E show "kind_ok D G5 E" using k5 k5p k5r by (cases E) simp_all
  qed
  have lay: "layout 0 (SIZE ext POSITION) (g_heap G5 POSITION) (parameterCount G3) \<and>
             layout (parameterCount G3) (SIZE ext RADIUS) (g_heap G5 RADIUS) (parameterCount G4) \<and>
             layout (parameterCount G4) (SIZE ext ELLIPTICITY) (g_heap G5 ELLIPTICITY) (parameterCount G5)"
    using s3(5) s4(5) s5(5) s4(4) s5(4) by simp
  have same25: "list_all2 (\<lambda>g g'. object_id g' = object_id g \<and> basis g' = basis g \<and>
                   sources_first g' = sources_first g \<and> sources_last g' = sources_last g)
                  (objects G2) (objects G5)"
  proof -
    have r: "\<And>E g g'. same_but_component E g g' \<Longrightarrow> object_id g' = object_id g \<and> basis g' = basis g \<and>
                   sources_first g' = sources_first g \<and> sources_last g' = sources_last g"
      using same_but_component_fields(1-4) by blast
    have a: "list_all2 (\<lambda>g g'. object_id g' = object_id g \<and> basis g' = basis g \<and>
                   sources_first g' = sources_first g \<and> sources_last g' = sources_last g)
                  (objects G2) (objects G3)"
      by (rule list_all2_mono[OF s3(2)]) (rule r)
    have b: "list_all2 (\<lambda>g g'. object_id g' = object_id g \<and> basis g' = basis g \<and>
                   sources_first g' = sources_first g \<and> sources_last g' = sources_last g)
                  (objects G3) (objects G4)"
      by (rule list_all2_mono[OF s4(2)]) (rule r)
    have c: "list_all2 (\<lambda>g g'. object_id g' = object_id g \<and> basis g' = basis g \<and>
                   sources_first g' = sources_first g \<and> sources_last g' = sources_last g)
                  (objects G4) (objects G5)"
      by (rule list_all2_mono[OF s5(2)]) (rule r)
    have ab: "list_all2 (\<lambda>g g'. object_id g' = object_id g \<and> basis g' = basis g \<and>
                   sources_first g' = sources_first g \<and> sources_last g' = sources_last g)
                  (objects G2) (objects G4)"
      by (rule list_all2_trans[OF _ a b]) simp
    show ?thesis by (rule list_all2_trans[OF _ ab c]) simp
  qed
  have ob5: "list_all2 (\<lambda>d g. object_id g = object_id d \<and> basis g = basis d \<and>
                       sources_first g = 0 \<and> sources_last g = 0) ?ds (objects G5)"
    by (rule list_all2_trans[OF _ ob2 same25]) simp
  have fr5: "list_all2 (\<lambda>d g. frame_id g = frame_id d \<and> frame_psf g = frame_psf d \<and> frame_wcs g = frame_wcs d)
                (def_frames D) (frames G5)"
    using fr1 f5(1) f4(1) f3(1) G2f(1) by simp
  have ok: "components_ok ext D G5"
    unfolding components_ok_def
    using ob5 fr5 kall lay f5 f4 f3 G2f by auto
  have reg: "initializeGrid_registered ext D Gi = Inr G5"
    using fr t3 t4 t5 by (simp add: initializeGrid_registered_def Let_def G2_def)
  have run: "initializeGrid_try ext D Gi
             = initializeGrid_validate_sources ext [0..<length (def_objects D)] G5"
    using reg f5(3) f4(3) f3(3) G2f(3) by (simp add: initializeGrid_try_def)
  have "g_wcs G5 = g_wcs Gi" "sourceData G5 = sourceData Gi"
       "objectData G5 = objectData Gi" "frameData G5 = frameData Gi"
    using f5 f4 f3 G2f by simp_all
  then show ?thesis using ok reg run by blast
qed

subsection \<open>The constructor of the Grid\<close>

text \<open>
  \<^verbatim>\<open>Grid::Grid\<close> always reaches the loop over the objects. When it returns, the loop
  invariant holds for all objects; when it fails, the body of the loop failed for one
  object, and after an exception \<^verbatim>\<open>destroyGrid\<close> has run on the Grid as it was then.
\<close>

lemma components_ok_lengths:
  assumes "components_ok ext D G5"
  shows "length (objects G5) = length (def_objects D)" "length (frames G5) = length (def_frames D)"
    "frames_last G5 = length (def_frames D)" "objects_last G5 = length (def_objects D)"
    "sources G5 = []" "g_sources_last G5 = 0"
proof -
  have a: "list_all2 (\<lambda>d g. object_id g = object_id d \<and> basis g = basis d \<and>
                       sources_first g = 0 \<and> sources_last g = 0)
        (def_objects D) (objects G5)"
    and b: "list_all2 (\<lambda>d g. frame_id g = frame_id d \<and> frame_psf g = frame_psf d \<and> frame_wcs g = frame_wcs d)
        (def_frames D) (frames G5)"
    using assms unfolding components_ok_def by blast+
  show "length (objects G5) = length (def_objects D)" using list_all2_lengthD[OF a] by simp
  show "length (frames G5) = length (def_frames D)" using list_all2_lengthD[OF b] by simp
  show "frames_last G5 = length (def_frames D)" "objects_last G5 = length (def_objects D)"
    "sources G5 = []" "g_sources_last G5 = 0"
    using assms unfolding components_ok_def by blast+
qed

lemma Grid_ctor_stages:
  "\<exists>G5. components_ok ext D G5 \<and> g_wcs G5 = def_wcs D \<and>
         sourceData G5 = length (def_frames D) * length (def_objects D) \<and>
         objectData G5 = length (def_objects D) \<and> frameData G5 = length (def_frames D) \<and>
         initializeGrid_registered ext D (Grid_members D) = Inr G5 \<and>
         Grid_ctor ext D =
           (case initializeGrid_validate_sources ext [0..<length (objects G5)] G5 of
              Inr g \<Rightarrow> Inr g
            | Inl (Exception e, g) \<Rightarrow> Inl (Exception e, destroyGrid g)
            | Inl (Undefined u, g) \<Rightarrow> Inl (Undefined u, []))"
proof -
  let ?Gi = "Grid_members D"
  have "\<exists>G5. components_ok ext D G5 \<and> g_wcs G5 = g_wcs ?Gi \<and> sourceData G5 = sourceData ?Gi \<and>
           objectData G5 = objectData ?Gi \<and> frameData G5 = frameData ?Gi \<and>
           initializeGrid_registered ext D ?Gi = Inr G5 \<and>
           initializeGrid_try ext D ?Gi
             = initializeGrid_validate_sources ext [0..<length (def_objects D)] G5"
    by (rule initializeGrid_try_components) (simp_all add: Grid_members_def)
  then obtain G5 where ok: "components_ok ext D G5" and w: "g_wcs G5 = def_wcs D"
    and sd: "sourceData G5 = length (def_frames D) * length (def_objects D)"
      "objectData G5 = length (def_objects D)" "frameData G5 = length (def_frames D)"
    and reg: "initializeGrid_registered ext D ?Gi = Inr G5"
    and run: "initializeGrid_try ext D ?Gi
             = initializeGrid_validate_sources ext [0..<length (def_objects D)] G5"
    by (auto simp: Grid_members_def)
  have "Grid_ctor ext D =
           (case initializeGrid_validate_sources ext [0..<length (objects G5)] G5 of
              Inr g \<Rightarrow> Inr g
            | Inl (Exception e, g) \<Rightarrow> Inl (Exception e, destroyGrid g)
            | Inl (Undefined u, g) \<Rightarrow> Inl (Undefined u, []))"
    unfolding Grid_ctor_def initializeGrid_def components_ok_lengths(1)[OF ok] run[symmetric]
    by (simp add: Grid_members_def)
  then show ?thesis using ok w sd reg by blast
qed

lemma Grid_ctor_Inr:
  assumes "Grid_ctor ext D = Inr G"
  shows "\<exists>G5. components_ok ext D G5 \<and> g_wcs G5 = def_wcs D \<and>
           sourceData G5 = length (def_frames D) * length (def_objects D) \<and>
           objectData G5 = length (def_objects D) \<and> frameData G5 = length (def_frames D) \<and>
           sources_inv ext G5 (length (def_objects D)) G"
proof -
  from Grid_ctor_stages[of ext D] obtain G5 where ok: "components_ok ext D G5"
    and rest: "g_wcs G5 = def_wcs D"
         "sourceData G5 = length (def_frames D) * length (def_objects D)"
         "objectData G5 = length (def_objects D)" "frameData G5 = length (def_frames D)"
    and run: "Grid_ctor ext D =
           (case initializeGrid_validate_sources ext [0..<length (objects G5)] G5 of
              Inr g \<Rightarrow> Inr g
            | Inl (Exception e, g) \<Rightarrow> Inl (Exception e, destroyGrid g)
            | Inl (Undefined u, g) \<Rightarrow> Inl (Undefined u, []))"
    by blast
  note l = components_ok_lengths[OF ok]
  have "initializeGrid_validate_sources ext [0..<length (objects G5)] G5 = Inr G"
    using run assms by (auto split: sum.splits prod.splits failure.splits)
  from initializeGrid_validate_sources_Inr[OF this l(5,6)]
  have "sources_inv ext G5 (length (def_objects D)) G" using l(1) by simp
  then show ?thesis using ok rest by blast
qed

lemma Grid_ctor_Inl:
  assumes "Grid_ctor ext D = Inl (f, d)"
  shows "\<exists>G5 i G Gf. components_ok ext D G5 \<and> g_wcs G5 = def_wcs D \<and>
           initializeGrid_registered ext D (Grid_members D) = Inr G5 \<and>
           i < length (def_objects D) \<and> sources_inv ext G5 i G \<and>
           initializeGrid_object ext i G = Inl (f, Gf) \<and>
           d = (case f of Exception e \<Rightarrow> destroyGrid Gf | Undefined u \<Rightarrow> [])"
proof -
  from Grid_ctor_stages[of ext D] obtain G5 where ok: "components_ok ext D G5"
    and rest: "g_wcs G5 = def_wcs D"
    and reg: "initializeGrid_registered ext D (Grid_members D) = Inr G5"
    and run: "Grid_ctor ext D =
           (case initializeGrid_validate_sources ext [0..<length (objects G5)] G5 of
              Inr g \<Rightarrow> Inr g
            | Inl (Exception e, g) \<Rightarrow> Inl (Exception e, destroyGrid g)
            | Inl (Undefined u, g) \<Rightarrow> Inl (Undefined u, []))"
    by blast
  note l = components_ok_lengths[OF ok]
  from run assms obtain Gf where
    fail: "initializeGrid_validate_sources ext [0..<length (objects G5)] G5 = Inl (f, Gf)"
    and d: "d = (case f of Exception e \<Rightarrow> destroyGrid Gf | Undefined u \<Rightarrow> [])"
    by (auto split: sum.splits prod.splits failure.splits)
  from initializeGrid_validate_sources_Inl[OF fail l(5,6)] obtain i G where
    "i < length (objects G5)" "sources_inv ext G5 i G" "initializeGrid_object ext i G = Inl (f, Gf)"
    by blast
  then show ?thesis using ok rest reg d l(1) by auto
qed

section \<open>The claims about the construction of a Grid\<close>

text \<open>The definitions to unfold when the construction is evaluated on an example.\<close>

lemmas eval_defs = Grid_ctor_def Grid_members_def initializeGrid_def initializeGrid_try_def
  initializeGrid_registered_def transferComponents_DG_def
      unique_insert_DG_def initializeGrid_object_def Source_ctor_def Source_transform_def Source_localPsf_def
      Source_basis_def getPosition_getValue_def Frame_ctor_def Object_ctor_def grid_ParameterComponent_ctor_def
      example_externals_def Let_def upt_rec

lemma example_Grid_exists: "\<exists>G. Grid_ctor example_externals example_Definition = Inr G"
  by (simp add: eval_defs example_Definition_def)

text \<open>
  Claim C9: a Definition with \<open>M\<close> objects and \<open>N\<close> frames whose Grid is constructed has
  exactly \<open>M * N\<close> sources, which fill the source buffer; the sources of the object at
  position \<open>k\<close> are the range \<open>[k * N, k * N + N)\<close> of the source array, the source at
  place \<open>j\<close> of the range pairs the object with the frame at position \<open>j\<close>, so the ranges
  follow each other in the order of the objects and cover the array.
\<close>

theorem Grid_sources_cross_product:
  assumes "Grid_ctor ext D = Inr G"
  shows "length (objects G) = length (def_objects D) \<and> length (frames G) = length (def_frames D) \<and>
         length (sources G) = length (def_objects D) * length (def_frames D) \<and>
         sourceData G = length (sources G) \<and> g_sources_last G = length (sources G) \<and>
         (\<forall>k < length (def_objects D).
            sources_first (objects G ! k) = k * length (def_frames D) \<and>
            sources_last (objects G ! k) = sources_first (objects G ! k) + length (def_frames D) \<and>
            (\<forall>j < length (def_frames D).
               source_object (sources G ! (sources_first (objects G ! k) + j)) = k \<and>
               source_frame (sources G ! (sources_first (objects G ! k) + j)) = j))"
proof -
  let ?M = "length (def_objects D)" and ?N = "length (def_frames D)"
  from Grid_ctor_Inr[OF assms] obtain G5 where ok: "components_ok ext D G5"
    and sd: "sourceData G5 = ?N * ?M"
    and inv: "sources_inv ext G5 ?M G"
    by blast
  note l = components_ok_lengths[OF ok]
  note f = sources_inv_fields[OF inv, unfolded l]
  have obs: "\<And>k. k < ?M \<Longrightarrow> objects G ! k =
           (objects G5 ! k)\<lparr>sources_first := k * ?N, sources_last := k * ?N + ?N\<rparr>"
    using inv unfolding sources_inv_def Let_def l by simp
  have src: "\<And>k j. k < ?M \<Longrightarrow> j < ?N \<Longrightarrow>
       Source_ctor (g_heap G5 POSITION) j (frames G5 ! j) k (objects G5 ! k) (g_wcs G5)
                    = Inr (sources G ! (k * ?N + j))"
    using inv unfolding sources_inv_def Let_def l by blast
  have 1: "length (objects G) = ?M" using f(9) by simp
  have 2: "length (frames G) = ?N" using f(2) l(2) by simp
  have 3: "length (sources G) = ?M * ?N" using f(11) by simp
  have 4: "sourceData G = length (sources G)" using f(8) sd 3 by (simp add: mult.commute)
  have 5: "g_sources_last G = length (sources G)" using f(10) 3 by simp
  have 6: "sources_first (objects G ! k) = k * ?N \<and>
            sources_last (objects G ! k) = sources_first (objects G ! k) + ?N \<and>
            (\<forall>j < ?N.
               source_object (sources G ! (sources_first (objects G ! k) + j)) = k \<and>
               source_frame (sources G ! (sources_first (objects G ! k) + j)) = j)" if k: "k < ?M" for k
  proof -
    have a: "sources_first (objects G ! k) = k * ?N" "sources_last (objects G ! k) = k * ?N + ?N"
      using obs[OF k] by simp_all
    have "source_object (sources G ! (k * ?N + j)) = k \<and> source_frame (sources G ! (k * ?N + j)) = j"
      if "j < ?N" for j
      using Source_ctor_Inr(1,2)[OF src[OF k that]] by simp
    then show ?thesis using a by simp
  qed
  show ?thesis using 1 2 3 4 5 6 by blast
qed

theorem Grid_sources_cross_product_witness:
  "\<exists>G. Grid_ctor example_externals example_Definition = Inr G \<and>
       length (sources G) = 4 \<and> sourceData G = 4 \<and>
       sources_first (objects G ! 0) = 0 \<and> sources_last (objects G ! 0) = 2 \<and>
       sources_first (objects G ! 1) = 2 \<and> sources_last (objects G ! 1) = 4 \<and>
       source_object (sources G ! 3) = 1 \<and> source_frame (sources G ! 3) = 1"
proof -
  obtain G where G: "Grid_ctor example_externals example_Definition = Inr G"
    using example_Grid_exists by blast
  have len: "length (def_objects example_Definition) = 2" "length (def_frames example_Definition) = 2"
    by (simp_all add: example_Definition_def)
  note t = Grid_sources_cross_product[OF G, unfolded len]
  have q: "sources_first (objects G ! k) = k * 2 \<and>
           sources_last (objects G ! k) = sources_first (objects G ! k) + 2 \<and>
           (\<forall>j < 2. source_object (sources G ! (sources_first (objects G ! k) + j)) = k \<and>
                    source_frame (sources G ! (sources_first (objects G ! k) + j)) = j)"
    if "k < 2" for k
    using t that by blast
  have q0: "sources_first (objects G ! 0) = 0 * 2 \<and>
           sources_last (objects G ! 0) = sources_first (objects G ! 0) + 2 \<and>
           (\<forall>j < 2. source_object (sources G ! (sources_first (objects G ! 0) + j)) = 0 \<and>
                    source_frame (sources G ! (sources_first (objects G ! 0) + j)) = j)"
    by (rule q) simp
  have q1: "sources_first (objects G ! 1) = 1 * 2 \<and>
           sources_last (objects G ! 1) = sources_first (objects G ! 1) + 2 \<and>
           (\<forall>j < 2. source_object (sources G ! (sources_first (objects G ! 1) + j)) = 1 \<and>
                    source_frame (sources G ! (sources_first (objects G ! 1) + j)) = j)"
    by (rule q) simp
  have f1: "sources_first (objects G ! 1) = 2" using q1 by simp
  have qs: "source_object (sources G ! (sources_first (objects G ! k) + j)) = k \<and>
            source_frame (sources G ! (sources_first (objects G ! k) + j)) = j"
    if "k < 2" "j < 2" for k j
    using q[OF that(1)] that(2) by blast
  have "source_object (sources G ! (sources_first (objects G ! 1) + 1)) = 1 \<and>
        source_frame (sources G ! (sources_first (objects G ! 1) + 1)) = 1"
    by (rule qs) simp_all
  then have s3: "source_object (sources G ! 3) = 1 \<and> source_frame (sources G ! 3) = 1"
    unfolding f1 by simp
  have "length (sources G) = 4" "sourceData G = 4" using t by simp_all
  moreover have "sources_first (objects G ! 0) = 0 \<and> sources_last (objects G ! 0) = 2"
    using q0 by simp
  moreover have "sources_first (objects G ! 1) = 2 \<and> sources_last (objects G ! 1) = 4"
    using q1 by simp
  ultimately show ?thesis using G s3 by blast
qed

text \<open>
  What a constructed Grid says about each pair of an object and a frame of the
  Definition, and what a failed construction can have failed with when the coordinate
  systems are consistent, every object has a position and validation accepts every
  object.
\<close>

lemma components_ok_object:
  assumes "components_ok ext D G5" "k < length (def_objects D)"
  shows "object_id (objects G5 ! k) = object_id (def_objects D ! k)"
    "basis (objects G5 ! k) = basis (def_objects D ! k)"
    "sources_first (objects G5 ! k) = 0" "sources_last (objects G5 ! k) = 0"
proof -
  have a: "list_all2 (\<lambda>d g. object_id g = object_id d \<and> basis g = basis d \<and>
                       sources_first g = 0 \<and> sources_last g = 0)
        (def_objects D) (objects G5)"
    using assms(1) unfolding components_ok_def by blast
  show "object_id (objects G5 ! k) = object_id (def_objects D ! k)"
    "basis (objects G5 ! k) = basis (def_objects D ! k)"
    "sources_first (objects G5 ! k) = 0" "sources_last (objects G5 ! k) = 0"
    using list_all2_nthD[OF a assms(2)] by simp_all
qed

lemma components_ok_frame:
  assumes "components_ok ext D G5" "j < length (def_frames D)"
  shows "frame_id (frames G5 ! j) = frame_id (def_frames D ! j)"
    "frame_psf (frames G5 ! j) = frame_psf (def_frames D ! j)"
    "frame_wcs (frames G5 ! j) = frame_wcs (def_frames D ! j)"
proof -
  have b: "list_all2 (\<lambda>d g. frame_id g = frame_id d \<and> frame_psf g = frame_psf d \<and> frame_wcs g = frame_wcs d)
        (def_frames D) (frames G5)"
    using assms(1) unfolding components_ok_def by blast
  show "frame_id (frames G5 ! j) = frame_id (def_frames D ! j)"
    "frame_psf (frames G5 ! j) = frame_psf (def_frames D ! j)"
    "frame_wcs (frames G5 ! j) = frame_wcs (def_frames D ! j)"
    using list_all2_nthD[OF b assms(2)] by simp_all
qed

lemma components_ok_kind: "components_ok ext D G5 \<Longrightarrow> kind_ok D G5 E"
  unfolding components_ok_def by blast

lemma kind_ok_None_iff:
  assumes "kind_ok D G E" "k < length (def_objects D)"
  shows "(g_component (objects G ! k) E = None) = (d_component (def_objects D ! k) E = None)"
proof -
  from assms(1) obtain U where
    "list_all2 (\<lambda>d g. shared_via U (d_component d E) (g_component g E)) (def_objects D) (objects G)"
    unfolding kind_ok_def by blast
  from list_all2_nthD[OF this assms(2)] show ?thesis by (rule shared_via_None_iff)
qed

lemma sources_inv_current_object:
  assumes "sources_inv ext G0 i G" "i < length (objects G0)"
  shows "objects G ! i = objects G0 ! i"
proof -
  have "\<And>k. k < length (objects G0) \<Longrightarrow> objects G ! k =
           (if k < i then (objects G0 ! k)\<lparr>sources_first := k * frames_last G0, sources_last := k * frames_last G0 + frames_last G0\<rparr>
            else objects G0 ! k)"
    using assms(1) unfolding sources_inv_def Let_def by blast
  from this[OF assms(2)] show ?thesis by simp
qed

lemma Grid_ctor_Inr_sources:
  assumes "Grid_ctor ext D = Inr G" "k < length (def_objects D)" "j < length (def_frames D)"
  shows "(frame_wcs (def_frames D ! j) = None) = (def_wcs D = None)"
    and "basis (def_objects D ! k) \<noteq> None \<or> frame_psf (def_frames D ! j) \<noteq> None"
proof -
  from Grid_ctor_Inr[OF assms(1)] obtain G5 where ok: "components_ok ext D G5"
    and w: "g_wcs G5 = def_wcs D"
    and inv: "sources_inv ext G5 (length (def_objects D)) G"
    by blast
  note l = components_ok_lengths[OF ok]
  have "\<And>k j. k < length (def_objects D) \<Longrightarrow> j < length (def_frames D) \<Longrightarrow>
       Source_ctor (g_heap G5 POSITION) j (frames G5 ! j) k (objects G5 ! k) (g_wcs G5)
                    = Inr (sources G ! (k * length (def_frames D) + j))"
    using inv unfolding sources_inv_def Let_def l by blast
  note s = Source_ctor_Inr[OF this[OF assms(2,3)]]
  show "(frame_wcs (def_frames D ! j) = None) = (def_wcs D = None)"
    using s(3) components_ok_frame(3)[OF ok assms(3)] w by simp
  show "basis (def_objects D ! k) \<noteq> None \<or> frame_psf (def_frames D ! j) \<noteq> None"
    using s(4) components_ok_frame(2)[OF ok assms(3)] components_ok_object(2)[OF ok assms(2)] by simp
qed

lemma Grid_ctor_Inl_consistent:
  assumes fail: "Grid_ctor ext D = Inl (f, d)"
    and wcs: "\<forall>fr \<in> set (def_frames D). (frame_wcs fr = None) = (def_wcs D = None)"
    and pos: "\<forall>ob \<in> set (def_objects D). d_component ob POSITION \<noteq> None"
    and val: "\<forall>G5 g. initializeGrid_registered ext D (Grid_members D) = Inr G5 \<and> g \<in> set (objects G5)
                    \<longrightarrow> validate ext (g_heap G5) g"
  shows "f = Exception MissingBasisOrPsf"
proof -
  from Grid_ctor_Inl[OF fail] obtain G5 i G Gf where ok: "components_ok ext D G5"
    and w: "g_wcs G5 = def_wcs D" and reg: "initializeGrid_registered ext D (Grid_members D) = Inr G5"
    and i: "i < length (def_objects D)"
    and inv: "sources_inv ext G5 i G" and ob: "initializeGrid_object ext i G = Inl (f, Gf)"
    by blast
  note l = components_ok_lengths[OF ok]
  note fl = sources_inv_fields[OF inv]
  have i5: "i < length (objects G5)" using i l(1) by simp
  have iG: "i < length (objects G)" using i5 fl(9) by simp
  have cur: "objects G ! i = objects G5 ! i" by (rule sources_inv_current_object[OF inv i5])
  have "objects G5 ! i \<in> set (objects G5)" using i5 by simp
  then have "validate ext (g_heap G) (objects G ! i)" using val reg unfolding fl(1) cur by blast
  with initializeGrid_object_Inl[OF ob iG] obtain j where j: "j < frames_last G"
    and sf: "Source_ctor (g_heap G POSITION) j (frames G ! j) i (objects G ! i) (g_wcs G) = Inl f"
    by blast
  have jN: "j < length (def_frames D)" using j fl(3) l(3) by simp
  have sf5: "Source_ctor (g_heap G5 POSITION) j (frames G5 ! j) i (objects G5 ! i) (g_wcs G5) = Inl f"
    using sf unfolding fl(1,2,4) cur .
  have c1: "(frame_wcs (frames G5 ! j) = None) = (g_wcs G5 = None)"
    using wcs jN components_ok_frame(3)[OF ok jN] w by simp
  have c2: "g_component (objects G5 ! i) POSITION \<noteq> None"
    using kind_ok_None_iff[OF components_ok_kind[OF ok] i, of POSITION] pos i by simp
  show ?thesis
  proof (cases "basis (objects G5 ! i) = None \<and> frame_psf (frames G5 ! j) = None")
    case True
    from Source_ctor_consistent(1)[OF c1 c2 True, of "g_heap G5 POSITION" j i] sf5 show ?thesis by simp
  next
    case False
    then have "basis (objects G5 ! i) \<noteq> None \<or> frame_psf (frames G5 ! j) \<noteq> None" by simp
    from Source_ctor_consistent(2)[OF c1 c2 this, of "g_heap G5 POSITION" j i] sf5 show ?thesis by simp
  qed
qed

lemma Source_ctor_basis:
  assumes "Source_ctor h j f i g w = Inr s"
  shows "case basis g of
           Some b \<Rightarrow>
             (case frame_psf f of
                Some p \<Rightarrow> (\<exists>point. getPosition_getValue h g = Inr point \<and>
                             source_localPsf s = Some (LocalPsf p (source_transform s) point) \<and>
                             source_basis s = Some (Convolved b (LocalPsf p (source_transform s) point)))
              | None \<Rightarrow> source_localPsf s = None \<and> source_basis s = Some b)
         | None \<Rightarrow> frame_psf f \<noteq> None \<and> source_basis s = None"
proof -
  from assms obtain t l sb where
    t: "Source_transform h f g w = Inr t" and l: "Source_localPsf h f g t = Inr l"
    and sb: "Source_basis f g l = Inr sb"
    and s: "s = \<lparr>source_frame = j, source_object = i, source_transform = t,
                 source_localPsf = l, source_basis = sb\<rparr>"
    by (auto simp: Source_ctor_def split: sum.splits)
  have sel: "source_transform s = t" "source_localPsf s = l" "source_basis s = sb"
    using s by simp_all
  show ?thesis
  proof (cases "frame_psf f")
    case None
    then have lN: "l = None" using l by (simp add: Source_localPsf_def)
    show ?thesis
    proof (cases "basis g")
      case bN: None
      then show ?thesis using sb None by (simp add: Source_basis_def)
    next
      case (Some b0)
      then have "sb = Some b0" using sb lN by (simp add: Source_basis_def)
      then show ?thesis using Some None lN sel by simp
    qed
  next
    case (Some p)
    then obtain point where p: "getPosition_getValue h g = Inr point" "l = Some (LocalPsf p t point)"
      using l by (auto simp: Source_localPsf_def split: sum.splits)
    show ?thesis
    proof (cases "basis g")
      case None
      then have "sb = None" using sb Some by (simp add: Source_basis_def)
      then show ?thesis using None Some sel by simp
    next
      case bS: (Some b0)
      then have "sb = Some (Convolved b0 (LocalPsf p t point))" using sb p(2) by (simp add: Source_basis_def)
      then show ?thesis using bS Some p sel by simp
    qed
  qed
qed

text \<open>
  Claim C7, as amended: for every Definition with an Object that lacks a basis and a
  Frame that lacks a PSF, the construction of the Grid never returns a Grid; it fails
  with the exception for a missing basis or PSF when, in addition, the presence of a
  coordinate system agrees between the Definition and every Frame, every Object has a
  position component and validation accepts every Object: every grid Object, as it is
  when the loop over the objects begins (line 132), with the components allocated by
  then. Conversely, a Source that is
  constructed has the basis of its Object convolved with the PSF of its Frame localized
  at the transformed position when both exist, the bare basis of the Object when the
  Frame has no PSF, and no basis when the Object has none (the Frame then has a PSF).
\<close>

theorem Grid_ctor_missing_basis_or_psf:
  assumes "ob \<in> set (def_objects D)" "basis ob = None" "fr \<in> set (def_frames D)" "frame_psf fr = None"
  shows "(\<forall>G. Grid_ctor ext D \<noteq> Inr G) \<and>
         ((\<forall>fr \<in> set (def_frames D). (frame_wcs fr = None) = (def_wcs D = None)) \<and>
          (\<forall>ob \<in> set (def_objects D). d_component ob POSITION \<noteq> None) \<and>
          (\<forall>G5 g. initializeGrid_registered ext D (Grid_members D) = Inr G5 \<and> g \<in> set (objects G5)
                    \<longrightarrow> validate ext (g_heap G5) g)
          \<longrightarrow> (\<exists>d. Grid_ctor ext D = Inl (Exception MissingBasisOrPsf, d))) \<and>
         (\<forall>h j f i g w s. Source_ctor h j f i g w = Inr s \<longrightarrow>
            (case basis g of
               Some b \<Rightarrow>
                 (case frame_psf f of
                    Some p \<Rightarrow> (\<exists>point. getPosition_getValue h g = Inr point \<and>
                                 source_localPsf s = Some (LocalPsf p (source_transform s) point) \<and>
                                 source_basis s = Some (Convolved b (LocalPsf p (source_transform s) point)))
                  | None \<Rightarrow> source_localPsf s = None \<and> source_basis s = Some b)
             | None \<Rightarrow> frame_psf f \<noteq> None \<and> source_basis s = None))"
proof -
  obtain k where k: "k < length (def_objects D)" "def_objects D ! k = ob"
    using assms(1) by (auto simp: in_set_conv_nth)
  obtain j where j: "j < length (def_frames D)" "def_frames D ! j = fr"
    using assms(3) by (auto simp: in_set_conv_nth)
  have no: "Grid_ctor ext D \<noteq> Inr G" for G
  proof
    assume "Grid_ctor ext D = Inr G"
    from Grid_ctor_Inr_sources(2)[OF this k(1) j(1)] show False
      using k(2) j(2) assms(2,4) by simp
  qed
  have miss: "\<exists>d. Grid_ctor ext D = Inl (Exception MissingBasisOrPsf, d)"
    if h: "(\<forall>fr \<in> set (def_frames D). (frame_wcs fr = None) = (def_wcs D = None)) \<and>
          (\<forall>ob \<in> set (def_objects D). d_component ob POSITION \<noteq> None) \<and>
          (\<forall>G5 g. initializeGrid_registered ext D (Grid_members D) = Inr G5 \<and> g \<in> set (objects G5)
                    \<longrightarrow> validate ext (g_heap G5) g)"
  proof -
    obtain f d where fd: "Grid_ctor ext D = Inl (f, d)"
      using no by (cases "Grid_ctor ext D") auto
    have "f = Exception MissingBasisOrPsf"
      by (rule Grid_ctor_Inl_consistent[OF fd]) (use h in blast)+
    then show ?thesis using fd by blast
  qed
  show ?thesis using no miss Source_ctor_basis by blast
qed

theorem Grid_ctor_missing_basis_or_psf_witness:
  "basis (def_objects unfit_Definition ! 0) = None \<and>
   frame_psf (def_frames unfit_Definition ! 0) = None \<and>
   (\<exists>d. Grid_ctor picky_externals unfit_Definition = Inl (Exception MissingBasisOrPsf, d)) \<and>
   (\<exists>s. Source_ctor [\<lparr>gc_value = [1, 2], gc_active = True, gc_offset = 0\<rparr>]
          0 (Frame_ctor (def_frames example_Definition ! 0) 0 0 0)
          0 ((Object_ctor example_externals (def_objects example_Definition ! 0) 0)
                \<lparr>g_component := (\<lambda>E. Some 0)\<rparr>)
          (Some (Wcs 0)) = Inr s \<and>
        source_basis s = Some (Convolved (Basis 0) (LocalPsf (Psf 1) (source_transform s) [1, 2])))"
proof -
  let ?ob = "def_objects unfit_Definition ! 0" and ?fr = "def_frames unfit_Definition ! 0"
  have a: "?ob \<in> set (def_objects unfit_Definition)" "basis ?ob = None"
          "?fr \<in> set (def_frames unfit_Definition)" "frame_psf ?fr = None"
    by (simp_all add: unfit_Definition_def)
  note t = Grid_ctor_missing_basis_or_psf[OF a, of picky_externals]
  have reg: "\<exists>G5. initializeGrid_registered picky_externals unfit_Definition (Grid_members unfit_Definition)
                 = Inr G5 \<and> map object_id (objects G5) = [10]"
    by (simp add: eval_defs picky_externals_def unfit_Definition_def)
  have v: "validate picky_externals (g_heap G5) g"
    if "initializeGrid_registered picky_externals unfit_Definition (Grid_members unfit_Definition) = Inr G5
        \<and> g \<in> set (objects G5)" for G5 g
  proof -
    have "map object_id (objects G5) = [10]" using reg that by auto
    then have "object_id ` set (objects G5) = {10}" by (metis list.set_map list.simps(15) empty_set)
    then have "object_id g = 10" using that by blast
    then show ?thesis by (simp add: picky_externals_def)
  qed
  have h: "(\<forall>fr \<in> set (def_frames unfit_Definition). (frame_wcs fr = None) = (def_wcs unfit_Definition = None)) \<and>
          (\<forall>ob \<in> set (def_objects unfit_Definition). d_component ob POSITION \<noteq> None) \<and>
          (\<forall>G5 g. initializeGrid_registered picky_externals unfit_Definition (Grid_members unfit_Definition) = Inr G5
                     \<and> g \<in> set (objects G5) \<longrightarrow> validate picky_externals (g_heap G5) g)"
    using v by (simp add: unfit_Definition_def)
  have 1: "\<exists>d. Grid_ctor picky_externals unfit_Definition = Inl (Exception MissingBasisOrPsf, d)"
    using t h by blast
  let ?h = "[\<lparr>gc_value = [1, 2], gc_active = True, gc_offset = 0\<rparr>]"
  let ?f = "Frame_ctor (def_frames example_Definition ! 0) 0 0 0"
  let ?g = "(Object_ctor example_externals (def_objects example_Definition ! 0) 0)\<lparr>g_component := (\<lambda>E. Some 0)\<rparr>"
  obtain s where s: "Source_ctor ?h 0 ?f 0 ?g (Some (Wcs 0)) = Inr s"
    by (simp add: eval_defs example_Definition_def)
  have "case basis ?g of
               Some b \<Rightarrow>
                 (case frame_psf ?f of
                    Some p \<Rightarrow> (\<exists>point. getPosition_getValue ?h ?g = Inr point \<and>
                                 source_localPsf s = Some (LocalPsf p (source_transform s) point) \<and>
                                 source_basis s = Some (Convolved b (LocalPsf p (source_transform s) point)))
                  | None \<Rightarrow> source_localPsf s = None \<and> source_basis s = Some b)
             | None \<Rightarrow> frame_psf ?f \<noteq> None \<and> source_basis s = None"
    using t s by blast
  then have "source_basis s = Some (Convolved (Basis 0) (LocalPsf (Psf 1) (source_transform s) [1, 2]))"
    by (simp add: eval_defs example_Definition_def)
  then show ?thesis using a(2,4) 1 s by blast
qed

text \<open>
  Whatever the validation answers, the construction of the Grid from the Definition
  with one Object without a basis, one Frame without a PSF, and a coordinate system on
  the Frame only, fails with the exception of line 207 or in the validation of line
  137, and so never with the exception for a missing basis or PSF.
\<close>

lemma inconsistent_Definition_any_validate:
  "Grid_ctor ext inconsistent_Definition
     = Inl (Exception FrameWithWcs, [DestroySource 0, DestroyObject 0, DestroyFrame 0]) \<or>
   Grid_ctor ext inconsistent_Definition
     = Inl (Exception ValidateFailed, [DestroyObject 0, DestroyFrame 0])"
  by (simp add: eval_defs destroyGrid_def inconsistent_Definition_def unfit_Definition_def)

text \<open>
  The claim as stated promises the exception for a missing basis or PSF for every such
  Definition. The Definition below has one Object without a basis and one Frame without
  a PSF, and the Frame has a coordinate system while the Definition has none: the
  constructor of the Source tests the coordinate systems first (lines 196-212) and throws
  the exception of line 207.
\<close>

theorem Grid_ctor_missing_basis_or_psf_counterexample:
  "basis (def_objects inconsistent_Definition ! 0) = None \<and>
   frame_psf (def_frames inconsistent_Definition ! 0) = None \<and>
   Grid_ctor example_externals inconsistent_Definition
     = Inl (Exception FrameWithWcs, [DestroySource 0, DestroyObject 0, DestroyFrame 0])"
  by (simp add: eval_defs destroyGrid_def inconsistent_Definition_def unfit_Definition_def)

text \<open>
  Claim C8: the constructor of a Source throws a coordinate-system exception exactly
  when the presence of a coordinate system differs between the Definition and the
  Frame: the exception of line 198 exactly when the Definition has one and the Frame has
  none, the exception of line 207 exactly when the Definition has none and the Frame
  has one; in every other case it raises neither.
\<close>

theorem Source_ctor_inconsistent_coordinate_system:
  "(Source_ctor h j f i ob w = Inl (Exception FrameWithoutWcs)) = (w \<noteq> None \<and> frame_wcs f = None) \<and>
   (Source_ctor h j f i ob w = Inl (Exception FrameWithWcs)) = (w = None \<and> frame_wcs f \<noteq> None)"
proof -
  have t: "Source_transform h f ob w = Inl (Exception FrameWithoutWcs) \<longleftrightarrow> w \<noteq> None \<and> frame_wcs f = None"
       "Source_transform h f ob w = Inl (Exception FrameWithWcs) \<longleftrightarrow> w = None \<and> frame_wcs f \<noteq> None"
    by (cases w; cases "frame_wcs f"; cases "g_component ob POSITION";
        simp add: Source_transform_def getPosition_getValue_def)+
  have c: "Source_ctor h j f i ob w = Inl (Exception e) \<longleftrightarrow> Source_transform h f ob w = Inl (Exception e)"
    if "e = FrameWithoutWcs \<or> e = FrameWithWcs" for e
  proof
    assume a: "Source_ctor h j f i ob w = Inl (Exception e)"
    from Source_ctor_Inl[OF a] show "Source_transform h f ob w = Inl (Exception e)"
      using Source_localPsf_no_exception Source_basis_exception that by fastforce
  next
    assume "Source_transform h f ob w = Inl (Exception e)"
    then show "Source_ctor h j f i ob w = Inl (Exception e)" by (simp add: Source_ctor_def)
  qed
  show ?thesis using t c by simp
qed

text \<open>
  After an exception, \<^verbatim>\<open>destroyGrid\<close> runs on a Grid in which all frames and all objects
  are constructed and the cursors of their arrays stand at their ends. The source cursor
  stands at the end of the constructed sources when validation threw, and one slot
  beyond it when the constructor of a Source threw: the placement \<^verbatim>\<open>new\<close> of line 144
  advances \<^verbatim>\<open>sources._last\<close> before the constructor runs.
\<close>

lemma Source_ctor_exception:
  assumes "Source_ctor h j f i ob w = Inl (Exception e)"
  shows "e = FrameWithoutWcs \<or> e = FrameWithWcs \<or> e = MissingBasisOrPsf"
proof -
  have t: "Source_transform h f ob w = Inl (Exception e) \<Longrightarrow> e = FrameWithoutWcs \<or> e = FrameWithWcs"
    by (cases w; cases "frame_wcs f"; cases "g_component ob POSITION")
       (auto simp: Source_transform_def getPosition_getValue_def)
  from Source_ctor_Inl[OF assms] show ?thesis
    using t Source_localPsf_no_exception Source_basis_exception by fastforce
qed

lemma Grid_ctor_exception_destroys:
  assumes "Grid_ctor ext D = Inl (Exception e, d)"
  shows "\<exists>Gf. d = destroyGrid Gf \<and>
           length (frames Gf) = length (def_frames D) \<and> frames_last Gf = length (frames Gf) \<and>
           length (objects Gf) = length (def_objects D) \<and> objects_last Gf = length (objects Gf) \<and>
           (if e = ValidateFailed then g_sources_last Gf = length (sources Gf)
            else g_sources_last Gf = Suc (length (sources Gf)))"
proof -
  from Grid_ctor_Inl[OF assms] obtain G5 i G Gf where ok: "components_ok ext D G5"
    and i: "i < length (def_objects D)"
    and inv: "sources_inv ext G5 i G" and ob: "initializeGrid_object ext i G = Inl (Exception e, Gf)"
    and d: "d = destroyGrid Gf"
    by auto
  note l = components_ok_lengths[OF ok]
  note fl = sources_inv_fields[OF inv]
  have iG: "i < length (objects G)" using i l(1) fl(9) by simp
  from initializeGrid_object_Inl[OF ob iG]
  have "length (frames Gf) = length (def_frames D) \<and> frames_last Gf = length (frames Gf) \<and>
           length (objects Gf) = length (def_objects D) \<and> objects_last Gf = length (objects Gf) \<and>
           (if e = ValidateFailed then g_sources_last Gf = length (sources Gf)
            else g_sources_last Gf = Suc (length (sources Gf)))"
  proof
    assume "Exception e = Exception ValidateFailed \<and> \<not> validate ext (g_heap G) (objects G ! i) \<and> Gf = G"
    then show ?thesis using fl l by simp
  next
    assume "validate ext (g_heap G) (objects G ! i) \<and>
          (\<exists>j srcs. j < frames_last G \<and> length srcs = j \<and>
             (\<forall>j' < j. Source_ctor (g_heap G POSITION) j' (frames G ! j') i (objects G ! i) (g_wcs G) = Inr (srcs ! j')) \<and>
             Source_ctor (g_heap G POSITION) j (frames G ! j) i (objects G ! i) (g_wcs G) = Inl (Exception e) \<and>
             Gf = G\<lparr>g_sources_last := g_sources_last G + j + 1, sources := sources G @ srcs,
                    objects := (objects G)[i := (objects G ! i)\<lparr>sources_first := g_sources_last G\<rparr>]\<rparr>)"
    then obtain j srcs where j: "length srcs = j"
      and sf: "Source_ctor (g_heap G POSITION) j (frames G ! j) i (objects G ! i) (g_wcs G) = Inl (Exception e)"
      and Gf: "Gf = G\<lparr>g_sources_last := g_sources_last G + j + 1, sources := sources G @ srcs,
                    objects := (objects G)[i := (objects G ! i)\<lparr>sources_first := g_sources_last G\<rparr>]\<rparr>"
      by blast
    have "e \<noteq> ValidateFailed" using Source_ctor_exception[OF sf] by auto
    then show ?thesis using fl l j by (simp add: Gf)
  qed
  then show ?thesis using d by blast
qed

text \<open>
  Claim C3: when a step of \<^verbatim>\<open>initializeGrid\<close> throws, exactly the elements constructed so
  far are destroyed, sources first, then objects, then frames, before the exception
  propagates, and no Grid is returned. The order and the absence of a Grid are as the
  code has them, but the destroyed slots are not exactly the constructed elements. For
  the Definition with one Frame without a PSF and one Object without a basis, the
  constructor of the only Source throws: the \<^verbatim>\<open>try\<close> block ends with one frame, one
  object and no source constructed, and \<^verbatim>\<open>destroyGrid\<close> runs the destructor of a Source on
  slot 0 of the source buffer, where no Source was constructed.
\<close>

theorem initializeGrid_destroys_unconstructed_source:
  "\<exists>g. initializeGrid_try example_externals unfit_Definition (Grid_members unfit_Definition)
          = Inl (Exception MissingBasisOrPsf, g) \<and>
       length (frames g) = 1 \<and> length (objects g) = 1 \<and> sources g = [] \<and>
       destroyGrid g = [DestroySource 0, DestroyObject 0, DestroyFrame 0] \<and>
       Grid_ctor example_externals unfit_Definition
          = Inl (Exception MissingBasisOrPsf, [DestroySource 0, DestroyObject 0, DestroyFrame 0])"
  by (simp add: eval_defs destroyGrid_def unfit_Definition_def)

subsection \<open>Offsets and components of a constructed Grid\<close>








lemma kind_ok_referenced:
  assumes "kind_ok D G E"
  shows "p < length (g_heap G E) \<longleftrightarrow> (\<exists>k < length (objects G). g_component (objects G ! k) E = Some p)"
proof -
  from assms obtain U where inv: "dedup_inv U (length (g_heap G E))"
    and dom: "dom U = {a. \<exists>d \<in> set (def_objects D). d_component d E = Some a}"
    and sh: "list_all2 (\<lambda>d g. shared_via U (d_component d E) (g_component g E)) (def_objects D) (objects G)"
    unfolding kind_ok_def by blast
  have len: "length (def_objects D) = length (objects G)" using list_all2_lengthD[OF sh] .
  show ?thesis
  proof
    assume "p < length (g_heap G E)"
    then have "p \<in> ran U" using inv by (simp add: dedup_inv_def)
    then obtain a where a: "U a = Some p" by (auto simp: ran_def)
    then have "a \<in> dom U" by auto
    then obtain k where k: "k < length (def_objects D)" "d_component (def_objects D ! k) E = Some a"
      using dom by (auto simp: in_set_conv_nth)
    have "shared_via U (d_component (def_objects D ! k) E) (g_component (objects G ! k) E)"
      using list_all2_nthD[OF sh k(1)] .
    then have "g_component (objects G ! k) E = Some p" using k(2) a by (simp add: shared_via_def)
    then show "\<exists>k < length (objects G). g_component (objects G ! k) E = Some p"
      using k(1) len by auto
  next
    assume "\<exists>k < length (objects G). g_component (objects G ! k) E = Some p"
    then obtain k where k: "k < length (objects G)" "g_component (objects G ! k) E = Some p" by blast
    have s: "shared_via U (d_component (def_objects D ! k) E) (g_component (objects G ! k) E)"
      using list_all2_nthD2[OF sh k(1)] .
    then obtain a where "d_component (def_objects D ! k) E = Some a" "U a = Some p"
      using k(2) by (cases "d_component (def_objects D ! k) E") (auto simp: shared_via_def)
    then show "p < length (g_heap G E)" using dedup_inv_bound[OF inv] by blast
  qed
qed

lemma Grid_ctor_Inr_components:
  assumes "Grid_ctor ext D = Inr G"
  shows "kind_ok D G E"
    and "\<exists>p1 p2. layout 0 (SIZE ext POSITION) (g_heap G POSITION) p1 \<and>
               layout p1 (SIZE ext RADIUS) (g_heap G RADIUS) p2 \<and>
               layout p2 (SIZE ext ELLIPTICITY) (g_heap G ELLIPTICITY) (parameterCount G)"
    and "g_wcs G = def_wcs D"
    and "list_all2 (\<lambda>d g. object_id g = object_id d \<and> basis g = basis d) (def_objects D) (objects G)"
    and "list_all2 (\<lambda>d g. frame_id g = frame_id d \<and> frame_psf g = frame_psf d \<and> frame_wcs g = frame_wcs d)
           (def_frames D) (frames G)"
proof -
  from Grid_ctor_Inr[OF assms] obtain G5 where ok: "components_ok ext D G5"
    and w: "g_wcs G5 = def_wcs D"
    and inv: "sources_inv ext G5 (length (def_objects D)) G"
    by blast
  note l = components_ok_lengths[OF ok]
  note f = sources_inv_fields[OF inv]
  have obs: "\<And>k. k < length (def_objects D) \<Longrightarrow> objects G ! k =
           (objects G5 ! k)\<lparr>sources_first := k * frames_last G5, sources_last := k * frames_last G5 + frames_last G5\<rparr>"
    using inv unfolding sources_inv_def Let_def l(1) by simp
  have comp: "g_component (objects G ! k) = g_component (objects G5 ! k)"
       "object_id (objects G ! k) = object_id (objects G5 ! k)"
       "basis (objects G ! k) = basis (objects G5 ! k)" if "k < length (def_objects D)" for k
    using obs[OF that] by simp_all
  from components_ok_kind[OF ok, of E] obtain U where U: "dedup_inv U (length (g_heap G5 E))"
    "dom U = {a. \<exists>d \<in> set (def_objects D). d_component d E = Some a}"
    "\<forall>a p. U a = Some p \<longrightarrow>
             gc_value (g_heap G5 E ! p) = dc_value (def_heap D E ! a) \<and>
             gc_active (g_heap G5 E ! p) = dc_active (def_heap D E ! a)"
    "list_all2 (\<lambda>d g. shared_via U (d_component d E) (g_component g E)) (def_objects D) (objects G5)"
    "ptrVec G5 E = active_refs 0 (g_heap G5 E)"
    unfolding kind_ok_def by blast
  have "list_all2 (\<lambda>d g. shared_via U (d_component d E) (g_component g E)) (def_objects D) (objects G)"
  proof (rule list_all2_all_nthI)
    show "length (def_objects D) = length (objects G)" using f(9) l(1) by simp
  next
    fix k assume k: "k < length (def_objects D)"
    show "shared_via U (d_component (def_objects D ! k) E) (g_component (objects G ! k) E)"
      using list_all2_nthD[OF U(4) k] comp(1)[OF k] by simp
  qed
  then show "kind_ok D G E" unfolding kind_ok_def using U(1,2,3,5) f(1,5) by auto
  show "\<exists>p1 p2. layout 0 (SIZE ext POSITION) (g_heap G POSITION) p1 \<and>
               layout p1 (SIZE ext RADIUS) (g_heap G RADIUS) p2 \<and>
               layout p2 (SIZE ext ELLIPTICITY) (g_heap G ELLIPTICITY) (parameterCount G)"
    using ok unfolding components_ok_def f(1,6) by blast
  show "g_wcs G = def_wcs D" using f(4) w by simp
  show "list_all2 (\<lambda>d g. object_id g = object_id d \<and> basis g = basis d) (def_objects D) (objects G)"
  proof (rule list_all2_all_nthI)
    show "length (def_objects D) = length (objects G)" using f(9) l(1) by simp
  next
    fix k assume k: "k < length (def_objects D)"
    show "object_id (objects G ! k) = object_id (def_objects D ! k) \<and> basis (objects G ! k) = basis (def_objects D ! k)"
      using comp(2,3)[OF k] components_ok_object(1,2)[OF ok k] by simp
  qed
  show "list_all2 (\<lambda>d g. frame_id g = frame_id d \<and> frame_psf g = frame_psf d \<and> frame_wcs g = frame_wcs d)
           (def_frames D) (frames G)"
    using ok unfolding components_ok_def f(2) by blast
qed




section \<open>Properties of the reconstruction of a Definition\<close>

subsection \<open>The deduplication step and the transfer loop, Grid \<rightarrow> Definition\<close>

text \<open>
  What lines 35-45 do for a grid pointer \<open>gp\<close>: on a repeat sight nothing changes and the
  definition pointer stored for \<open>gp\<close> is returned; on first sight a definition component
  is allocated with the flag of the grid component and with its value, or, when a
  parameter buffer is given and the component is active, with the scalars of the buffer
  at the offset of the component. The step fails only by reading outside the buffer.
  The loop relates the definition objects to the grid objects as the forward loop
  relates the grid objects to the definition objects.
\<close>

lemma unique_insert_GD_cases:
  assumes "unique_insert_GD sz E paramIter pc gp (U, R) = Inr (dp, U', R')"
  shows "(U gp = Some dp \<and> U' = U \<and> R' = R) \<or>
         (U gp = None \<and> dp = length (def_heap R E) \<and> U' = U(gp \<mapsto> dp) \<and>
          R' = R\<lparr>def_heap := (def_heap R)(E := def_heap R E @
                     [\<lparr>dc_value = new_value sz paramIter pc, dc_active = gc_active pc\<rparr>])\<rparr>)"
proof (cases "U gp")
  case (Some x)
  then show ?thesis using assms by (simp add: unique_insert_GD_def)
next
  case None
  show ?thesis
  proof (cases paramIter)
    case pN: None
    then show ?thesis using assms None by (auto simp: unique_insert_GD_def make_def new_value_def Let_def)
  next
    case (Some buf)
    show ?thesis
    proof (cases "gc_active pc")
      case False
      then show ?thesis using assms None Some
        by (auto simp: unique_insert_GD_def make_def new_value_def Let_def)
    next
      case True
      then show ?thesis using assms None Some
        by (auto simp: unique_insert_GD_def make_def new_value_def Let_def readParameters_def
            split: sum.splits if_splits)
    qed
  qed
qed

lemma unique_insert_GD_Inl:
  assumes "unique_insert_GD sz E paramIter pc gp (U, R) = Inl f"
  shows "f = Undefined PastTheEnd \<and> U gp = None \<and> gc_active pc \<and>
         (\<exists>buf. paramIter = Some buf \<and> \<not> (0 \<le> gc_offset pc \<and> nat (gc_offset pc) + sz \<le> length buf))"
  using assms
  by (auto simp: unique_insert_GD_def make_def Let_def readParameters_def
      split: option.splits sum.splits if_splits)

lemma unique_insert_GD_inv:
  assumes "unique_insert_GD sz E paramIter pc gp (U, R) = Inr (dp, U', R')"
    and "dedup_inv U (length (def_heap R E))"
  shows "dedup_inv U' (length (def_heap R' E))" "U \<subseteq>\<^sub>m U'" "U' gp = Some dp"
    "R' = R\<lparr>def_heap := def_heap R'\<rparr>" "\<forall>E'. E' \<noteq> E \<longrightarrow> def_heap R' E' = def_heap R E'"
  using unique_insert_GD_cases[OF assms(1)] assms(2)
  by (auto simp: dedup_inv_fresh map_le_def)

lemma same_but_d_component_refl: "same_but_d_component E d d"
  by (simp add: same_but_d_component_def)

lemma same_but_d_component_update:
  "same_but_d_component E d (d\<lparr>d_component := (d_component d)(E := x)\<rparr>)"
  by (simp add: same_but_d_component_def)

lemma transferComponents_GD_loop_spec:
  assumes "transferComponents_GD_loop sz E paramIter heap gs ds (U, R) = Inr (ds', U', R')"
    and "dedup_inv U (length (def_heap R E))"
    and "length ds = length gs"
  shows "dedup_inv U' (length (def_heap R' E)) \<and> U \<subseteq>\<^sub>m U' \<and>
         R' = R\<lparr>def_heap := def_heap R'\<rparr> \<and> (\<forall>E'. E' \<noteq> E \<longrightarrow> def_heap R' E' = def_heap R E') \<and>
         list_all2 (\<lambda>(g, d) d'. same_but_d_component E d d' \<and>
                      (case g_component g E of
                         None \<Rightarrow> d_component d' E = d_component d E
                       | Some a \<Rightarrow> U' a \<noteq> None \<and> d_component d' E = U' a))
                   (zip gs ds) ds'"
  using assms
proof (induction gs arbitrary: ds U R ds' U' R')
  case Nil
  then show ?case by simp
next
  case (Cons g gis)
  from Cons.prems(3) obtain d dis where ds: "ds = d # dis" and len: "length dis = length gis"
    by (cases ds) auto
  show ?case
  proof (cases "g_component g E")
    case None
    from Cons.prems(1) obtain dis' where
      rec: "transferComponents_GD_loop sz E paramIter heap gis dis (U, R) = Inr (dis', U', R')"
      and ds': "ds' = d # dis'"
      by (auto simp: ds None split: sum.splits)
    from Cons.IH[OF rec Cons.prems(2) len] show ?thesis
      by (simp add: ds ds' None same_but_d_component_refl)
  next
    case (Some gp)
    from Cons.prems(1) obtain dp U1 R1 dis' where
      step: "unique_insert_GD sz E paramIter (heap ! gp) gp (U, R) = Inr (dp, U1, R1)"
      and rec: "transferComponents_GD_loop sz E paramIter heap gis dis (U1, R1) = Inr (dis', U', R')"
      and ds': "ds' = d\<lparr>d_component := (d_component d)(E := Some dp)\<rparr> # dis'"
      by (auto simp: ds Some split: sum.splits)
    note s = unique_insert_GD_inv[OF step Cons.prems(2)]
    note ih = Cons.IH[OF rec s(1) len]
    have le: "U \<subseteq>\<^sub>m U'" using s(2) ih by (blast intro: map_le_trans)
    have U'gp: "U' gp = Some dp" using s(3) ih by (metis domI map_le_def)
    have R1: "R1 = R\<lparr>def_heap := def_heap R1\<rparr>" by (rule s(4))
    have R': "R' = R1\<lparr>def_heap := def_heap R'\<rparr>" using ih by blast
    have fr: "R' = R\<lparr>def_heap := def_heap R'\<rparr>" by (subst R', subst R1) simp
    have oth: "\<forall>E'. E' \<noteq> E \<longrightarrow> def_heap R' E' = def_heap R E'" using s(5) ih by simp
    show ?thesis using ih le U'gp fr oth
      by (simp add: ds ds' Some same_but_d_component_update)
  qed
qed

lemma transferComponents_GD_loop_dom:
  assumes "transferComponents_GD_loop sz E paramIter heap gs ds (U, R) = Inr (ds', U', R')"
  shows "dom U' \<subseteq> dom U \<union> {a. \<exists>g \<in> set gs. g_component g E = Some a}"
  using assms
proof (induction gs arbitrary: ds U R ds')
  case Nil
  then show ?case by simp
next
  case (Cons g gis)
  show ?case
  proof (cases ds)
    case Nil
    then show ?thesis using Cons.prems by simp
  next
    case ds: (Cons d dis)
    show ?thesis
    proof (cases "g_component g E")
      case None
      from Cons.prems obtain dis' where
        rec: "transferComponents_GD_loop sz E paramIter heap gis dis (U, R) = Inr (dis', U', R')"
        by (auto simp: ds None split: sum.splits)
      from Cons.IH[OF rec] show ?thesis by auto
    next
      case (Some gp)
      from Cons.prems obtain dp U1 R1 dis' where
        step: "unique_insert_GD sz E paramIter (heap ! gp) gp (U, R) = Inr (dp, U1, R1)"
        and rec: "transferComponents_GD_loop sz E paramIter heap gis dis (U1, R1) = Inr (dis', U', R')"
        by (auto simp: ds Some split: sum.splits)
      have d1: "dom U1 \<subseteq> insert gp (dom U)" using unique_insert_GD_cases[OF step] by auto
      have d2: "dom U' \<subseteq> dom U1 \<union> {a. \<exists>g \<in> set gis. g_component g E = Some a}"
        by (rule Cons.IH[OF rec])
      have d3: "gp \<in> {a. \<exists>g' \<in> set (g # gis). g_component g' E = Some a}" using Some by simp
      have d4: "{a. \<exists>g \<in> set gis. g_component g E = Some a}
                  \<subseteq> {a. \<exists>g' \<in> set (g # gis). g_component g' E = Some a}" by auto
      show ?thesis using d1 d2 d3 d4 by blast
    qed
  qed
qed

lemma transferComponents_GD_loop_values:
  assumes "transferComponents_GD_loop sz E paramIter heap gs ds (U, R) = Inr (ds', U', R')"
    and "dedup_inv U (length (def_heap R E))"
    and "\<forall>a p. U a = Some p \<longrightarrow> def_heap R E ! p = \<lparr>dc_value = new_value sz paramIter (heap ! a), dc_active = gc_active (heap ! a)\<rparr>"
  shows "\<forall>a p. U' a = Some p \<longrightarrow> def_heap R' E ! p = \<lparr>dc_value = new_value sz paramIter (heap ! a), dc_active = gc_active (heap ! a)\<rparr>"
  using assms
proof (induction gs arbitrary: ds U R ds')
  case Nil
  then show ?case by simp
next
  case (Cons g gis)
  show ?case
  proof (cases ds)
    case Nil
    then show ?thesis using Cons.prems by simp
  next
    case ds: (Cons d dis)
    show ?thesis
    proof (cases "g_component g E")
      case None
      from Cons.prems(1) obtain dis' where
        rec: "transferComponents_GD_loop sz E paramIter heap gis dis (U, R) = Inr (dis', U', R')"
        by (auto simp: ds None split: sum.splits)
      from Cons.IH[OF rec Cons.prems(2,3)] show ?thesis .
    next
      case (Some gp)
      from Cons.prems(1) obtain dp U1 R1 dis' where
        step: "unique_insert_GD sz E paramIter (heap ! gp) gp (U, R) = Inr (dp, U1, R1)"
        and rec: "transferComponents_GD_loop sz E paramIter heap gis dis (U1, R1) = Inr (dis', U', R')"
        by (auto simp: ds Some split: sum.splits)
      note s = unique_insert_GD_inv[OF step Cons.prems(2)]
      have v1: "\<forall>a p. U1 a = Some p \<longrightarrow> def_heap R1 E ! p = \<lparr>dc_value = new_value sz paramIter (heap ! a), dc_active = gc_active (heap ! a)\<rparr>"
      proof (intro allI impI)
        fix a p assume ap: "U1 a = Some p"
        from unique_insert_GD_cases[OF step]
        show "def_heap R1 E ! p = \<lparr>dc_value = new_value sz paramIter (heap ! a), dc_active = gc_active (heap ! a)\<rparr>"
        proof
          assume "U gp = Some dp \<and> U1 = U \<and> R1 = R"
          then show ?thesis using Cons.prems(3) ap by simp
        next
          assume c: "U gp = None \<and> dp = length (def_heap R E) \<and> U1 = U(gp \<mapsto> dp) \<and>
             R1 = R\<lparr>def_heap := (def_heap R)(E := def_heap R E @
                     [\<lparr>dc_value = new_value sz paramIter (heap ! gp), dc_active = gc_active (heap ! gp)\<rparr>])\<rparr>"
          show ?thesis
          proof (cases "a = gp")
            case True
            then have "p = length (def_heap R E)" using c ap by simp
            then show ?thesis using c True by simp
          next
            case False
            then have old: "U a = Some p" using c ap by simp
            then have "p < length (def_heap R E)" using dedup_inv_bound[OF Cons.prems(2)] by blast
            then show ?thesis using c Cons.prems(3) old by (simp add: nth_append)
          qed
        qed
      qed
      from Cons.IH[OF rec s(1) v1] show ?thesis .
    qed
  qed
qed

subsection \<open>\<^verbatim>\<open>transferComponents\<close>, Grid \<rightarrow> Definition\<close>

lemma transferComponents_GD_spec:
  assumes t: "transferComponents_GD ext E G R paramIter = Inr R'"
    and len: "length (def_objects R) = length (objects G)"
    and empty: "def_heap R E = []"
    and none: "\<forall>d \<in> set (def_objects R). d_component d E = None"
  shows "\<exists>U. dedup_inv U (length (def_heap R' E)) \<and>
           dom U = {a. \<exists>g \<in> set (objects G). g_component g E = Some a} \<and>
           (\<forall>a p. U a = Some p \<longrightarrow> def_heap R' E ! p =
               \<lparr>dc_value = new_value (SIZE ext E) paramIter (g_heap G E ! a), dc_active = gc_active (g_heap G E ! a)\<rparr>) \<and>
           list_all2 (\<lambda>g d'. shared_via U (g_component g E) (d_component d' E)) (objects G) (def_objects R')"
    and "list_all2 (same_but_d_component E) (def_objects R) (def_objects R')"
    and "R' = R\<lparr>def_heap := def_heap R', def_objects := def_objects R'\<rparr>"
    and "\<forall>E'. E' \<noteq> E \<longrightarrow> def_heap R' E' = def_heap R E'"
proof -
  let ?gs = "objects G" and ?ds = "def_objects R"
  from t obtain ds' U R1 where
    loop: "transferComponents_GD_loop (SIZE ext E) E paramIter (g_heap G E) ?gs ?ds (Map.empty, R) = Inr (ds', U, R1)"
    and R': "R' = R1\<lparr>def_objects := ds'\<rparr>"
    by (auto simp: transferComponents_GD_def split: sum.splits)
  have inv0: "dedup_inv Map.empty (length (def_heap R E))" using empty by (simp add: dedup_inv_empty)
  note spec = transferComponents_GD_loop_spec[OF loop inv0 len]
  have inv: "dedup_inv U (length (def_heap R1 E))" using spec by simp
  have R1: "R1 = R\<lparr>def_heap := def_heap R1\<rparr>" using spec by blast
  have oth: "\<forall>E'. E' \<noteq> E \<longrightarrow> def_heap R1 E' = def_heap R E'" using spec by blast
  have rel: "list_all2 (\<lambda>(g, d) d'. same_but_d_component E d d' \<and>
                      (case g_component g E of
                         None \<Rightarrow> d_component d' E = d_component d E
                       | Some a \<Rightarrow> U a \<noteq> None \<and> d_component d' E = U a))
                   (zip ?gs ?ds) ds'" using spec by blast
  have lds: "length ds' = length ?gs" using list_all2_lengthD[OF rel] len by simp
  have nth: "same_but_d_component E (?ds ! k) (ds' ! k) \<and>
        (case g_component (?gs ! k) E of
                         None \<Rightarrow> d_component (ds' ! k) E = d_component (?ds ! k) E
                       | Some a \<Rightarrow> U a \<noteq> None \<and> d_component (ds' ! k) E = U a)" if "k < length ?gs" for k
    using list_all2_nthD[OF rel, of k] that len by simp
  have dom1: "dom U \<subseteq> {a. \<exists>g \<in> set ?gs. g_component g E = Some a}"
    using transferComponents_GD_loop_dom[OF loop] by simp
  have dom2: "{a. \<exists>g \<in> set ?gs. g_component g E = Some a} \<subseteq> dom U"
  proof
    fix a assume "a \<in> {a. \<exists>g \<in> set ?gs. g_component g E = Some a}"
    then obtain k where k: "k < length ?gs" "g_component (?gs ! k) E = Some a"
      by (auto simp: in_set_conv_nth)
    then show "a \<in> dom U" using nth[OF k(1)] by auto
  qed
  have vals: "\<forall>a p. U a = Some p \<longrightarrow> def_heap R1 E ! p =
               \<lparr>dc_value = new_value (SIZE ext E) paramIter (g_heap G E ! a), dc_active = gc_active (g_heap G E ! a)\<rparr>"
    by (rule transferComponents_GD_loop_values[OF loop inv0]) simp
  have sh: "list_all2 (\<lambda>g d'. shared_via U (g_component g E) (d_component d' E)) ?gs ds'"
  proof (rule list_all2_all_nthI)
    show "length ?gs = length ds'" using lds by simp
  next
    fix k assume k: "k < length ?gs"
    have "d_component (?ds ! k) E = None" using none k len by simp
    then show "shared_via U (g_component (?gs ! k) E) (d_component (ds' ! k) E)"
      using nth[OF k] by (auto simp: shared_via_def split: option.splits)
  qed
  have "dedup_inv U (length (def_heap R' E)) \<and>
           dom U = {a. \<exists>g \<in> set (objects G). g_component g E = Some a} \<and>
           (\<forall>a p. U a = Some p \<longrightarrow> def_heap R' E ! p =
               \<lparr>dc_value = new_value (SIZE ext E) paramIter (g_heap G E ! a), dc_active = gc_active (g_heap G E ! a)\<rparr>) \<and>
           list_all2 (\<lambda>g d'. shared_via U (g_component g E) (d_component d' E)) (objects G) (def_objects R')"
    using inv dom1 dom2 vals sh by (simp add: R')
  then show "\<exists>U. dedup_inv U (length (def_heap R' E)) \<and>
           dom U = {a. \<exists>g \<in> set (objects G). g_component g E = Some a} \<and>
           (\<forall>a p. U a = Some p \<longrightarrow> def_heap R' E ! p =
               \<lparr>dc_value = new_value (SIZE ext E) paramIter (g_heap G E ! a), dc_active = gc_active (g_heap G E ! a)\<rparr>) \<and>
           list_all2 (\<lambda>g d'. shared_via U (g_component g E) (d_component d' E)) (objects G) (def_objects R')"
    by blast
  show "list_all2 (same_but_d_component E) (def_objects R) (def_objects R')"
  proof (rule list_all2_all_nthI)
    show "length (def_objects R) = length (def_objects R')" using lds len by (simp add: R')
  next
    fix k assume "k < length (def_objects R)"
    then show "same_but_d_component E (def_objects R ! k) (def_objects R' ! k)"
      using nth[of k] len by (simp add: R')
  qed
  show "R' = R\<lparr>def_heap := def_heap R', def_objects := def_objects R'\<rparr>"
    unfolding R' by (subst R1) simp
  show "\<forall>E'. E' \<noteq> E \<longrightarrow> def_heap R' E' = def_heap R E'" using oth by (simp add: R')
qed

text \<open>
  The reverse transfer returns when the definition objects are not fewer than the grid
  objects and, when a buffer is given, every active component the objects point to has
  its range inside the buffer.
\<close>

lemma unique_insert_GD_total:
  assumes "\<And>buf. paramIter = Some buf \<Longrightarrow> gc_active pc \<Longrightarrow>
             0 \<le> gc_offset pc \<and> nat (gc_offset pc) + sz \<le> length buf"
  shows "\<exists>r. unique_insert_GD sz E paramIter pc gp s = Inr r"
proof (cases "unique_insert_GD sz E paramIter pc gp s")
  case (Inl f)
  obtain U R where s: "s = (U, R)" by (cases s)
  from unique_insert_GD_Inl[OF Inl[unfolded s]] assms show ?thesis by blast
next
  case (Inr r)
  then show ?thesis by blast
qed

lemma transferComponents_GD_loop_total:
  assumes "length gs \<le> length ds"
    and "\<forall>buf g gp. paramIter = Some buf \<and> g \<in> set gs \<and> g_component g E = Some gp \<and>
           gc_active (heap ! gp) \<longrightarrow>
           0 \<le> gc_offset (heap ! gp) \<and> nat (gc_offset (heap ! gp)) + sz \<le> length buf"
  shows "\<exists>r. transferComponents_GD_loop sz E paramIter heap gs ds s = Inr r"
  using assms
proof (induction gs arbitrary: ds s)
  case Nil
  then show ?case by simp
next
  case (Cons g gis)
  then obtain d dis where ds: "ds = d # dis" by (cases ds) auto
  have le: "length gis \<le> length dis" using Cons.prems(1) ds by simp
  have fit: "\<forall>buf g gp. paramIter = Some buf \<and> g \<in> set gis \<and> g_component g E = Some gp \<and>
           gc_active (heap ! gp) \<longrightarrow>
           0 \<le> gc_offset (heap ! gp) \<and> nat (gc_offset (heap ! gp)) + sz \<le> length buf"
  proof (intro allI impI)
    fix buf g' gp
    assume a: "paramIter = Some buf \<and> g' \<in> set gis \<and> g_component g' E = Some gp \<and> gc_active (heap ! gp)"
    then have "paramIter = Some buf \<and> g' \<in> set (g # gis) \<and> g_component g' E = Some gp \<and> gc_active (heap ! gp)"
      by simp
    then show "0 \<le> gc_offset (heap ! gp) \<and> nat (gc_offset (heap ! gp)) + sz \<le> length buf"
      using Cons.prems(2) by blast
  qed
  show ?case
  proof (cases "g_component g E")
    case None
    from Cons.IH[OF le fit, of s] obtain r where "transferComponents_GD_loop sz E paramIter heap gis dis s = Inr r"
      by blast
    then show ?thesis by (cases r) (simp add: ds None)
  next
    case (Some gp)
    have "\<exists>r. unique_insert_GD sz E paramIter (heap ! gp) gp s = Inr r"
    proof (rule unique_insert_GD_total)
      fix buf assume "paramIter = Some buf" "gc_active (heap ! gp)"
      then have "paramIter = Some buf \<and> g \<in> set (g # gis) \<and> g_component g E = Some gp \<and> gc_active (heap ! gp)"
        using Some by simp
      then show "0 \<le> gc_offset (heap ! gp) \<and> nat (gc_offset (heap ! gp)) + sz \<le> length buf"
        using Cons.prems(2) by blast
    qed
    then obtain dp s1 where step: "unique_insert_GD sz E paramIter (heap ! gp) gp s = Inr (dp, s1)"
      by (metis surj_pair)
    from Cons.IH[OF le fit, of s1] obtain r where "transferComponents_GD_loop sz E paramIter heap gis dis s1 = Inr r"
      by blast
    then show ?thesis by (cases r) (simp add: ds Some step)
  qed
qed

lemma transferComponents_GD_total:
  assumes "length (objects G) \<le> length (def_objects R)"
    and "\<forall>buf g gp. paramIter = Some buf \<and> g \<in> set (objects G) \<and> g_component g E = Some gp \<and>
           gc_active (g_heap G E ! gp) \<longrightarrow>
           0 \<le> gc_offset (g_heap G E ! gp) \<and> nat (gc_offset (g_heap G E ! gp)) + SIZE ext E \<le> length buf"
  shows "\<exists>R'. transferComponents_GD ext E G R paramIter = Inr R'"
proof -
  from transferComponents_GD_loop_total[OF assms, where s = "(Map.empty, R)"] obtain r where
    "transferComponents_GD_loop (SIZE ext E) E paramIter (g_heap G E) (objects G) (def_objects R) (Map.empty, R) = Inr r"
    by blast
  then show ?thesis by (cases r) (simp add: transferComponents_GD_def)
qed

text \<open>
  Inserting elements with ascending identifiers into a set, one after the other, lists
  them in the order of insertion.
\<close>

lemma set_insert_greatest:
  "\<forall>y \<in> set ys. idf y < idf x \<Longrightarrow> set_insert idf x ys = ys @ [x]"
  by (induction ys) auto

lemma foldl_set_insert_sorted:
  assumes "sorted_wrt (<) (map idf xs)" "\<And>x. idf' (c x) = idf x"
    and "\<forall>a \<in> set acc. \<forall>x \<in> set xs. idf' a < idf x"
  shows "foldl (\<lambda>s x. set_insert idf' (c x) s) acc xs = acc @ map c xs"
  using assms(1,3)
proof (induction xs arbitrary: acc)
  case Nil
  then show ?case by simp
next
  case (Cons x xs)
  have ins: "set_insert idf' (c x) acc = acc @ [c x]"
    by (rule set_insert_greatest) (use Cons.prems(2) assms(2) in simp)
  have "foldl (\<lambda>s x. set_insert idf' (c x) s) (acc @ [c x]) xs = (acc @ [c x]) @ map c xs"
  proof (rule Cons.IH)
    show "sorted_wrt (<) (map idf xs)" using Cons.prems(1) by simp
    show "\<forall>a \<in> set (acc @ [c x]). \<forall>y \<in> set xs. idf' a < idf y"
      using Cons.prems assms(2) by auto
  qed
  then show ?case using ins by simp
qed

subsection \<open>\<^verbatim>\<open>makeDefinition\<close>\<close>

text \<open>
  For a Grid with a coordinate system whose objects have ascending identifiers:
  \<^verbatim>\<open>makeDefinition\<close> returns when the parameter buffer, if one is given, holds the range of
  every active component; and the Definition it returns has the coordinate system of
  the Grid, one object for each grid object with its identifier and basis, and every
  kind deduplicated. For a Grid without a coordinate system it dereferences the empty
  pointer.
\<close>

lemma same_but_d_component_fields:
  assumes "same_but_d_component E d d'"
  shows "object_id d' = object_id d" "basis d' = basis d"
    "E' \<noteq> E \<Longrightarrow> d_component d' E' = d_component d E'"
proof -
  have eq: "d' = d\<lparr>d_component := d_component d'\<rparr>" using assms by (simp add: same_but_d_component_def)
  show "object_id d' = object_id d" by (subst eq) simp
  show "basis d' = basis d" by (subst eq) simp
  show "E' \<noteq> E \<Longrightarrow> d_component d' E' = d_component d E'" using assms by (simp add: same_but_d_component_def)
qed

lemma reverse_kind_ok_preserved:
  assumes ok: "reverse_kind_ok ext G paramIter R E" and ne: "E' \<noteq> E"
    and same: "list_all2 (same_but_d_component E') (def_objects R) (def_objects R')"
    and heap: "def_heap R' E = def_heap R E"
  shows "reverse_kind_ok ext G paramIter R' E"
proof -
  from ok obtain U where U: "dedup_inv U (length (def_heap R E))"
    "dom U = {a. \<exists>g \<in> set (objects G). g_component g E = Some a}"
    "\<forall>a p. U a = Some p \<longrightarrow>
             def_heap R E ! p =
               \<lparr>dc_value = new_value (SIZE ext E) paramIter (g_heap G E ! a),
                dc_active = gc_active (g_heap G E ! a)\<rparr>"
    "list_all2 (\<lambda>g d'. shared_via U (g_component g E) (d_component d' E)) (objects G) (def_objects R)"
    unfolding reverse_kind_ok_def by blast
  have "list_all2 (\<lambda>g d'. shared_via U (g_component g E) (d_component d' E)) (objects G) (def_objects R')"
  proof (rule list_all2_all_nthI)
    show "length (objects G) = length (def_objects R')"
      using list_all2_lengthD[OF U(4)] list_all2_lengthD[OF same] by simp
  next
    fix k assume k: "k < length (objects G)"
    then have kR: "k < length (def_objects R)" using list_all2_lengthD[OF U(4)] by simp
    have "same_but_d_component E' (def_objects R ! k) (def_objects R' ! k)"
      using list_all2_nthD[OF same kR] .
    then have "d_component (def_objects R' ! k) E = d_component (def_objects R ! k) E"
      using ne by (simp add: same_but_d_component_def)
    then show "shared_via U (g_component (objects G ! k) E) (d_component (def_objects R' ! k) E)"
      using list_all2_nthD[OF U(4) k] by simp
  qed
  then show ?thesis unfolding reverse_kind_ok_def using U(1,2,3) heap by auto
qed

lemma base_through_same_but_d_component:
  assumes "list_all2 (\<lambda>g d. object_id d = object_id g \<and> basis d = basis g) gs ds"
    and "list_all2 (same_but_d_component E) ds ds'"
  shows "list_all2 (\<lambda>g d. object_id d = object_id g \<and> basis d = basis g) gs ds'"
proof (rule list_all2_all_nthI)
  show "length gs = length ds'" using list_all2_lengthD[OF assms(1)] list_all2_lengthD[OF assms(2)] by simp
next
  fix k assume k: "k < length gs"
  then have kd: "k < length ds" using list_all2_lengthD[OF assms(1)] by simp
  note a = list_all2_nthD[OF assms(1) k]
  note b = same_but_d_component_fields(1,2)[OF list_all2_nthD[OF assms(2) kd]]
  show "object_id (ds' ! k) = object_id (gs ! k) \<and> basis (ds' ! k) = basis (gs ! k)"
    using a b by simp
qed

lemma makeDefinition_stages:
  assumes w: "g_wcs G = Some w"
    and so: "sorted_wrt (<) (map object_id (objects G))"
  shows "buffer_fits ext G paramIter \<Longrightarrow> \<exists>D'. makeDefinition ext G paramIter = Inr D'"
    and "makeDefinition ext G paramIter = Inr D' \<Longrightarrow>
           def_wcs D' = Some w \<and>
           list_all2 (\<lambda>g d'. object_id d' = object_id g \<and> basis d' = basis g) (objects G) (def_objects D') \<and>
           (\<forall>E. reverse_kind_ok ext G paramIter D' E)"
proof -
  define fs where "fs = foldl (\<lambda>fs i. set_insert frame_id (definition_Frame i) fs) [] (frames G)"
  define R2 where "R2 = \<lparr>def_wcs = Some w, def_frames = fs,
                         def_objects = map definition_Object (objects G), def_heap = (\<lambda>E. [])\<rparr>"
  have os: "foldl (\<lambda>os i. set_insert object_id (definition_Object i) os) [] (objects G)
            = map definition_Object (objects G)"
    using foldl_set_insert_sorted[OF so, of object_id definition_Object "[]"]
    by (simp add: definition_Object_def)
  have md: "makeDefinition ext G paramIter =
     (case transferComponents_GD ext POSITION G R2 paramIter of
                Inl f \<Rightarrow> Inl f
              | Inr result3 \<Rightarrow>
                  (case transferComponents_GD ext RADIUS G result3 paramIter of
                     Inl f \<Rightarrow> Inl f
                   | Inr result4 \<Rightarrow> transferComponents_GD ext ELLIPTICITY G result4 paramIter))"
    by (simp add: makeDefinition_def w Let_def os R2_def fs_def)
  have len2: "length (def_objects R2) = length (objects G)" by (simp add: R2_def)
  have e2: "def_heap R2 E = []" for E by (simp add: R2_def)
  have none2: "\<forall>d \<in> set (def_objects R2). d_component d E = None" for E
    by (auto simp: R2_def definition_Object_def)
  have base2: "list_all2 (\<lambda>g d'. object_id d' = object_id g \<and> basis d' = basis g) (objects G) (def_objects R2)"
    by (simp add: R2_def list_all2_conv_all_nth definition_Object_def)
  have stage3: "reverse_kind_ok ext G paramIter R3 POSITION \<and>
        length (def_objects R3) = length (objects G) \<and>
        def_heap R3 RADIUS = [] \<and> def_heap R3 ELLIPTICITY = [] \<and>
        (\<forall>d \<in> set (def_objects R3). d_component d RADIUS = None \<and> d_component d ELLIPTICITY = None) \<and>
        list_all2 (\<lambda>g d'. object_id d' = object_id g \<and> basis d' = basis g) (objects G) (def_objects R3) \<and>
        def_wcs R3 = Some w"
    if t3: "transferComponents_GD ext POSITION G R2 paramIter = Inr R3" for R3
  proof -
    note s = transferComponents_GD_spec[OF t3 len2 e2 none2]
    have k: "reverse_kind_ok ext G paramIter R3 POSITION" unfolding reverse_kind_ok_def using s(1) .
    have l: "length (def_objects R3) = length (objects G)" using list_all2_lengthD[OF s(2)] len2 by simp
    have h: "def_heap R3 RADIUS = []" "def_heap R3 ELLIPTICITY = []" using s(4) e2 by simp_all
    have n: "d_component d RADIUS = None \<and> d_component d ELLIPTICITY = None" if "d \<in> set (def_objects R3)" for d
    proof -
      from that obtain k where k: "k < length (def_objects R3)" "def_objects R3 ! k = d"
        by (auto simp: in_set_conv_nth)
      have sb: "same_but_d_component POSITION (def_objects R2 ! k) d"
        using list_all2_nthD2[OF s(2) k(1)] k(2) by simp
      have "def_objects R2 ! k \<in> set (def_objects R2)" using k(1) l len2 by simp
      then have "d_component (def_objects R2 ! k) RADIUS = None" "d_component (def_objects R2 ! k) ELLIPTICITY = None"
        using none2 by blast+
      then show ?thesis
        using same_but_d_component_fields(3)[OF sb, of RADIUS]
              same_but_d_component_fields(3)[OF sb, of ELLIPTICITY] by simp
    qed
    have b: "list_all2 (\<lambda>g d'. object_id d' = object_id g \<and> basis d' = basis g) (objects G) (def_objects R3)"
      by (rule base_through_same_but_d_component[OF base2 s(2)])
    have wc: "def_wcs R3 = Some w" by (subst s(3)) (simp add: R2_def)
    show ?thesis using k l h n b wc by blast
  qed
  have stage4: "reverse_kind_ok ext G paramIter R4 POSITION \<and> reverse_kind_ok ext G paramIter R4 RADIUS \<and>
        length (def_objects R4) = length (objects G) \<and>
        def_heap R4 ELLIPTICITY = [] \<and>
        (\<forall>d \<in> set (def_objects R4). d_component d ELLIPTICITY = None) \<and>
        list_all2 (\<lambda>g d'. object_id d' = object_id g \<and> basis d' = basis g) (objects G) (def_objects R4) \<and>
        def_wcs R4 = Some w"
    if t3: "transferComponents_GD ext POSITION G R2 paramIter = Inr R3"
      and t4: "transferComponents_GD ext RADIUS G R3 paramIter = Inr R4" for R3 R4
  proof -
    note p = stage3[OF t3]
    have none3: "\<forall>d \<in> set (def_objects R3). d_component d RADIUS = None" using p by blast
    have len3: "length (def_objects R3) = length (objects G)" using p by blast
    have e3: "def_heap R3 RADIUS = []" using p by blast
    note s = transferComponents_GD_spec[OF t4 len3 e3 none3]
    have k: "reverse_kind_ok ext G paramIter R4 RADIUS" unfolding reverse_kind_ok_def using s(1) .
    have kp: "reverse_kind_ok ext G paramIter R4 POSITION"
      by (rule reverse_kind_ok_preserved[where R = R3 and E' = RADIUS]) (use p s in simp_all)
    have l: "length (def_objects R4) = length (objects G)" using list_all2_lengthD[OF s(2)] len3 by simp
    have h: "def_heap R4 ELLIPTICITY = []" using s(4) p by simp
    have n: "d_component d ELLIPTICITY = None" if "d \<in> set (def_objects R4)" for d
    proof -
      from that obtain k where k: "k < length (def_objects R4)" "def_objects R4 ! k = d"
        by (auto simp: in_set_conv_nth)
      have sb: "same_but_d_component RADIUS (def_objects R3 ! k) d"
        using list_all2_nthD2[OF s(2) k(1)] k(2) by simp
      have "def_objects R3 ! k \<in> set (def_objects R3)" using k(1) l len3 by simp
      then have "d_component (def_objects R3 ! k) ELLIPTICITY = None" using p by blast
      then show ?thesis using same_but_d_component_fields(3)[OF sb, of ELLIPTICITY] by simp
    qed
    have b3: "list_all2 (\<lambda>g d'. object_id d' = object_id g \<and> basis d' = basis g) (objects G) (def_objects R3)"
      using p by blast
    have b: "list_all2 (\<lambda>g d'. object_id d' = object_id g \<and> basis d' = basis g) (objects G) (def_objects R4)"
      by (rule base_through_same_but_d_component[OF b3 s(2)])
    have w3: "def_wcs R3 = Some w" using p by blast
    have wc: "def_wcs R4 = Some w" by (subst s(3)) (simp add: w3)
    show ?thesis using k kp l h n b wc by blast
  qed
  have stage5: "(\<forall>E. reverse_kind_ok ext G paramIter R5 E) \<and>
        list_all2 (\<lambda>g d'. object_id d' = object_id g \<and> basis d' = basis g) (objects G) (def_objects R5) \<and>
        def_wcs R5 = Some w"
    if t3: "transferComponents_GD ext POSITION G R2 paramIter = Inr R3"
      and t4: "transferComponents_GD ext RADIUS G R3 paramIter = Inr R4"
      and t5: "transferComponents_GD ext ELLIPTICITY G R4 paramIter = Inr R5" for R3 R4 R5
  proof -
    note p = stage4[OF t3 t4]
    have none4: "\<forall>d \<in> set (def_objects R4). d_component d ELLIPTICITY = None" using p by blast
    have len4: "length (def_objects R4) = length (objects G)" using p by blast
    have e4: "def_heap R4 ELLIPTICITY = []" using p by blast
    note s = transferComponents_GD_spec[OF t5 len4 e4 none4]
    have k: "reverse_kind_ok ext G paramIter R5 ELLIPTICITY" unfolding reverse_kind_ok_def using s(1) .
    have kp: "reverse_kind_ok ext G paramIter R5 POSITION"
      by (rule reverse_kind_ok_preserved[where R = R4 and E' = ELLIPTICITY]) (use p s in simp_all)
    have kr: "reverse_kind_ok ext G paramIter R5 RADIUS"
      by (rule reverse_kind_ok_preserved[where R = R4 and E' = ELLIPTICITY]) (use p s in simp_all)
    have kall: "\<forall>E. reverse_kind_ok ext G paramIter R5 E"
    proof
      fix E show "reverse_kind_ok ext G paramIter R5 E" using k kp kr by (cases E) simp_all
    qed
    have b4: "list_all2 (\<lambda>g d'. object_id d' = object_id g \<and> basis d' = basis g) (objects G) (def_objects R4)"
      using p by blast
    have b: "list_all2 (\<lambda>g d'. object_id d' = object_id g \<and> basis d' = basis g) (objects G) (def_objects R5)"
      by (rule base_through_same_but_d_component[OF b4 s(2)])
    have w4: "def_wcs R4 = Some w" using p by blast
    have wc: "def_wcs R5 = Some w" by (subst s(3)) (simp add: w4)
    show ?thesis using kall b wc by blast
  qed
  show "makeDefinition ext G paramIter = Inr D' \<Longrightarrow>
           def_wcs D' = Some w \<and>
           list_all2 (\<lambda>g d'. object_id d' = object_id g \<and> basis d' = basis g) (objects G) (def_objects D') \<and>
           (\<forall>E. reverse_kind_ok ext G paramIter D' E)"
  proof -
    assume a: "makeDefinition ext G paramIter = Inr D'"
    from a[unfolded md] obtain R3 R4 where
      t3: "transferComponents_GD ext POSITION G R2 paramIter = Inr R3"
      and t4: "transferComponents_GD ext RADIUS G R3 paramIter = Inr R4"
      and t5: "transferComponents_GD ext ELLIPTICITY G R4 paramIter = Inr D'"
      by (auto split: sum.splits)
    from stage5[OF t3 t4 t5] show ?thesis by blast
  qed
  show "\<exists>D'. makeDefinition ext G paramIter = Inr D'" if fit: "buffer_fits ext G paramIter"
  proof -
    have fitE: "\<forall>buf g gp. paramIter = Some buf \<and> g \<in> set (objects G) \<and> g_component g E = Some gp \<and>
           gc_active (g_heap G E ! gp) \<longrightarrow>
           0 \<le> gc_offset (g_heap G E ! gp) \<and> nat (gc_offset (g_heap G E ! gp)) + SIZE ext E \<le> length buf" for E
      using fit unfolding buffer_fits_def by blast
    obtain R3 where t3: "transferComponents_GD ext POSITION G R2 paramIter = Inr R3"
      using transferComponents_GD_total[OF _ fitE, of R2 POSITION] len2 by auto
    have "length (objects G) \<le> length (def_objects R3)" using stage3[OF t3] by simp
    then obtain R4 where t4: "transferComponents_GD ext RADIUS G R3 paramIter = Inr R4"
      using transferComponents_GD_total[OF _ fitE, of R3 RADIUS] by auto
    have "length (objects G) \<le> length (def_objects R4)" using stage4[OF t3 t4] by simp
    then obtain R5 where t5: "transferComponents_GD ext ELLIPTICITY G R4 paramIter = Inr R5"
      using transferComponents_GD_total[OF _ fitE, of R4 ELLIPTICITY] by auto
    show ?thesis unfolding md using t3 t4 t5 by simp
  qed
qed

lemma makeDefinition_no_wcs:
  "g_wcs G = None \<Longrightarrow> makeDefinition ext G paramIter = Inl (Undefined NullDereference)"
  by (simp add: makeDefinition_def)

subsection \<open>Sharing, and the reconstruction from a constructed Grid\<close>

text \<open>
  Pointer lists related through an injective deduplication map have the same sharing
  topology. In a constructed Grid every active component that an object points to has
  its range inside \<open>[0, parameterCount)\<close>, so a buffer of \<open>parameterCount\<close> scalars fits. The
  grid objects have the identifiers of the definition objects. Hence \<^verbatim>\<open>makeDefinition\<close>
  returns for a Grid built from a Definition that has a coordinate system, without a
  buffer or with one of at least \<open>parameterCount\<close> scalars.
\<close>

lemma shared_via_same_sharing:
  assumes inv: "dedup_inv U n"
    and rel: "list_all2 (\<lambda>x y. shared_via U (f x) (g y)) xs ys"
  shows "same_sharing (map f xs) (map g ys)"
proof -
  have len: "length xs = length ys" using list_all2_lengthD[OF rel] .
  have nth: "shared_via U (f (xs ! i)) (g (ys ! i))" if "i < length xs" for i
    using list_all2_nthD[OF rel that] .
  have none: "(f (xs ! i) = None) = (g (ys ! i) = None)" if "i < length xs" for i
    using shared_via_None_iff[OF nth[OF that]] by simp
  have eq: "(f (xs ! i) = f (xs ! j)) = (g (ys ! i) = g (ys ! j))"
    if i: "i < length xs" and j: "j < length xs" for i j
  proof (cases "f (xs ! i)")
    case None
    then have gi: "g (ys ! i) = None" using none[OF i] by simp
    show ?thesis using None gi none[OF j] by auto
  next
    case (Some a)
    show ?thesis
    proof (cases "f (xs ! j)")
      case None
      then have gj: "g (ys ! j) = None" using none[OF j] by simp
      have "g (ys ! i) \<noteq> None" using Some none[OF i] by simp
      then show ?thesis using Some None gj by auto
    next
      case sb: (Some b)
      have "(g (ys ! i) = g (ys ! j)) = (a = b)"
        by (rule shared_via_eq_iff[OF inv]) (use nth[OF i] nth[OF j] Some sb in simp_all)
      then show ?thesis using Some sb by simp
    qed
  qed
  show ?thesis unfolding same_sharing_def using len none eq by simp
qed

lemma same_sharing_trans:
  assumes "same_sharing ps qs" "same_sharing qs rs"
  shows "same_sharing ps rs"
  using assms unfolding same_sharing_def by simp

lemma layout_le: "layout p sz cs q \<Longrightarrow> p \<le> q"
proof (induction cs arbitrary: p)
  case Nil
  then show ?case by simp
next
  case (Cons c cs)
  show ?case
  proof (cases "gc_active c")
    case True
    then have "layout (p + int sz) sz cs q" using Cons.prems by simp
    from Cons.IH[OF this] show ?thesis by simp
  next
    case False
    then have "layout p sz cs q" using Cons.prems by simp
    from Cons.IH[OF this] show ?thesis .
  qed
qed

lemma layout_bounds:
  "layout p sz cs q \<Longrightarrow> c \<in> set cs \<Longrightarrow> gc_active c \<Longrightarrow> p \<le> gc_offset c \<and> gc_offset c + int sz \<le> q"
proof (induction cs arbitrary: p)
  case Nil
  then show ?case by simp
next
  case (Cons x cs)
  show ?case
  proof (cases "gc_active x")
    case True
    then have off: "gc_offset x = p" and rest: "layout (p + int sz) sz cs q" using Cons.prems(1) by simp_all
    show ?thesis
    proof (cases "c = x")
      case True
      then show ?thesis using off layout_le[OF rest] by simp
    next
      case False
      then have "c \<in> set cs" using Cons.prems(2) by simp
      from Cons.IH[OF rest this Cons.prems(3)] show ?thesis by simp
    qed
  next
    case False
    then have rest: "layout p sz cs q" using Cons.prems(1) by simp
    have "c \<noteq> x" using False Cons.prems(3) by auto
    then have "c \<in> set cs" using Cons.prems(2) by simp
    from Cons.IH[OF rest this Cons.prems(3)] show ?thesis .
  qed
qed

lemma Grid_ctor_buffer_fits:
  assumes G: "Grid_ctor ext D = Inr G"
    and buf: "\<forall>buf. paramIter = Some buf \<longrightarrow> parameterCount G \<le> int (length buf)"
  shows "buffer_fits ext G paramIter"
  unfolding buffer_fits_def
proof (intro allI impI)
  fix E buf g gp
  assume a: "paramIter = Some buf \<and> g \<in> set (objects G) \<and> g_component g E = Some gp \<and>
           gc_active (g_heap G E ! gp)"
  note c = Grid_ctor_Inr_components[OF G]
  from c(2) obtain p1 p2 where lay:
    "layout 0 (SIZE ext POSITION) (g_heap G POSITION) p1"
    "layout p1 (SIZE ext RADIUS) (g_heap G RADIUS) p2"
    "layout p2 (SIZE ext ELLIPTICITY) (g_heap G ELLIPTICITY) (parameterCount G)"
    by blast
  have le: "0 \<le> p1" "p1 \<le> p2" "p2 \<le> parameterCount G"
    using layout_le[OF lay(1)] layout_le[OF lay(2)] layout_le[OF lay(3)] by simp_all
  obtain k where k: "k < length (objects G)" "objects G ! k = g" using a by (auto simp: in_set_conv_nth)
  have "gp < length (g_heap G E)"
    using kind_ok_referenced[OF c(1), of gp E] k a by auto
  then have mem: "g_heap G E ! gp \<in> set (g_heap G E)" by simp
  have act: "gc_active (g_heap G E ! gp)" using a by simp
  have "0 \<le> gc_offset (g_heap G E ! gp) \<and>
        gc_offset (g_heap G E ! gp) + int (SIZE ext E) \<le> parameterCount G"
  proof (cases E)
    case POSITION
    from layout_bounds[OF lay(1) mem[unfolded POSITION] act[unfolded POSITION]] show ?thesis
      using le by (simp add: POSITION)
  next
    case RADIUS
    from layout_bounds[OF lay(2) mem[unfolded RADIUS] act[unfolded RADIUS]] show ?thesis
      using le by (simp add: RADIUS)
  next
    case ELLIPTICITY
    from layout_bounds[OF lay(3) mem[unfolded ELLIPTICITY] act[unfolded ELLIPTICITY]] show ?thesis
      using le by (simp add: ELLIPTICITY)
  qed
  moreover have "parameterCount G \<le> int (length buf)" using buf a by simp
  ultimately show "0 \<le> gc_offset (g_heap G E ! gp) \<and>
        nat (gc_offset (g_heap G E ! gp)) + SIZE ext E \<le> length buf"
    by linarith
qed

lemma Grid_ctor_object_ids:
  assumes "Grid_ctor ext D = Inr G"
  shows "map object_id (objects G) = map object_id (def_objects D)"
proof (rule nth_equalityI)
  note b = Grid_ctor_Inr_components(4)[OF assms]
  show len: "length (map object_id (objects G)) = length (map object_id (def_objects D))"
    using list_all2_lengthD[OF b] by simp
  fix k assume "k < length (map object_id (objects G))"
  then have k: "k < length (def_objects D)" using len by simp
  from list_all2_nthD[OF b k] show "map object_id (objects G) ! k = map object_id (def_objects D) ! k"
    using k len by simp
qed

lemma Grid_makeDefinition_total:
  assumes G: "Grid_ctor ext D = Inr G"
    and so: "sorted_wrt (<) (map object_id (def_objects D))"
    and w: "def_wcs D \<noteq> None"
    and buf: "\<forall>buf. paramIter = Some buf \<longrightarrow> parameterCount G \<le> int (length buf)"
  shows "\<exists>D'. makeDefinition ext G paramIter = Inr D'"
proof -
  obtain wc where wc: "g_wcs G = Some wc" using w Grid_ctor_Inr_components(3)[OF G] by auto
  have sg: "sorted_wrt (<) (map object_id (objects G))" using so Grid_ctor_object_ids[OF G] by simp
  show ?thesis by (rule makeDefinition_stages(1)[OF wc sg Grid_ctor_buffer_fits[OF G buf]])
qed

section \<open>Sharing through both transformations\<close>

text \<open>
  The example Definition builds a Grid with a single radius component.
\<close>

lemma example_Grid_radius:
  "\<exists>G. Grid_ctor example_externals example_Definition = Inr G \<and> length (g_heap G RADIUS) = 1 \<and>
       gc_offset (g_heap G RADIUS ! 0) = 2 \<and> gc_value (g_heap G RADIUS ! 0) = [5]"
  by (simp add: eval_defs example_Definition_def)

text \<open>
  The components of a Definition that \<^verbatim>\<open>makeDefinition\<close> returns are exactly those its
  objects point to, and the component an object points to is the one made from the grid
  component of the grid object at the same place.
\<close>

lemma reverse_kind_ok_referenced:
  assumes "reverse_kind_ok ext G paramIter D' E"
  shows "q < length (def_heap D' E)
           \<longleftrightarrow> (\<exists>k < length (def_objects D'). d_component (def_objects D' ! k) E = Some q)"
proof -
  from assms obtain U where inv: "dedup_inv U (length (def_heap D' E))"
    and dom: "dom U = {a. \<exists>g \<in> set (objects G). g_component g E = Some a}"
    and sh: "list_all2 (\<lambda>g d'. shared_via U (g_component g E) (d_component d' E)) (objects G) (def_objects D')"
    unfolding reverse_kind_ok_def by blast
  have len: "length (objects G) = length (def_objects D')" using list_all2_lengthD[OF sh] .
  show ?thesis
  proof
    assume "q < length (def_heap D' E)"
    then have "q \<in> ran U" using inv by (simp add: dedup_inv_def)
    then obtain a where a: "U a = Some q" by (auto simp: ran_def)
    then have "a \<in> dom U" by auto
    then obtain k where k: "k < length (objects G)" "g_component (objects G ! k) E = Some a"
      using dom by (auto simp: in_set_conv_nth)
    have "shared_via U (g_component (objects G ! k) E) (d_component (def_objects D' ! k) E)"
      using list_all2_nthD[OF sh k(1)] .
    then have "d_component (def_objects D' ! k) E = Some q" using k(2) a by (simp add: shared_via_def)
    then show "\<exists>k < length (def_objects D'). d_component (def_objects D' ! k) E = Some q"
      using k(1) len by auto
  next
    assume "\<exists>k < length (def_objects D'). d_component (def_objects D' ! k) E = Some q"
    then obtain k where k: "k < length (def_objects D')" "d_component (def_objects D' ! k) E = Some q"
      by blast
    have s: "shared_via U (g_component (objects G ! k) E) (d_component (def_objects D' ! k) E)"
      using list_all2_nthD2[OF sh k(1)] .
    then obtain a where "g_component (objects G ! k) E = Some a" "U a = Some q"
      using k(2) by (cases "g_component (objects G ! k) E") (auto simp: shared_via_def)
    then show "q < length (def_heap D' E)" using dedup_inv_bound[OF inv] by blast
  qed
qed

lemma reverse_kind_ok_component:
  assumes r: "reverse_kind_ok ext G paramIter D' E"
    and k: "k < length (objects G)" "g_component (objects G ! k) E = Some p"
      "d_component (def_objects D' ! k) E = Some q"
  shows "def_heap D' E ! q =
           \<lparr>dc_value = new_value (SIZE ext E) paramIter (g_heap G E ! p),
            dc_active = gc_active (g_heap G E ! p)\<rparr>"
proof -
  from r obtain U where
    val: "\<forall>a p. U a = Some p \<longrightarrow>
             def_heap D' E ! p =
               \<lparr>dc_value = new_value (SIZE ext E) paramIter (g_heap G E ! a),
                dc_active = gc_active (g_heap G E ! a)\<rparr>"
    and sh: "list_all2 (\<lambda>g d'. shared_via U (g_component g E) (d_component d' E)) (objects G) (def_objects D')"
    unfolding reverse_kind_ok_def by blast
  have "shared_via U (Some p) (Some q)" using list_all2_nthD[OF sh k(1)] k(2,3) by simp
  then have "U p = Some q" by (simp add: shared_via_def)
  then show ?thesis using val by blast
qed

text \<open>
  Sharing is preserved in both directions, wherever both transformations return. Let \<open>D\<close>
  be a Definition whose objects are in ascending identifier order (the order of its
  \<^verbatim>\<open>ObjectSet\<close>) and \<open>G\<close> the Grid built from it. For every Kind \<open>E\<close>: the \<open>k\<close>-th and \<open>l\<close>-th
  grid objects point to the same grid component exactly when the \<open>k\<close>-th and \<open>l\<close>-th
  definition objects point to the same definition component, and one has no component
  exactly when the other has none; the grid components of the Kind are exactly those
  some grid object points to; the grid component of an object holds the value and the
  active flag of the definition component it was made from. Whenever \<^verbatim>\<open>makeDefinition\<close>
  returns a Definition \<open>D'\<close> for \<open>G\<close>, with or without a buffer, the objects of \<open>D'\<close> share
  their components exactly as the objects of \<open>D\<close> do, the components of \<open>D'\<close> are exactly
  those some object of \<open>D'\<close> points to, and each has the active flag of the component of \<open>D\<close>
  at the same place and its value, or, when a buffer is given and the component is
  active, the scalars of the buffer at the offset of the grid component. When \<open>D\<close> has a
  coordinate system, \<^verbatim>\<open>makeDefinition\<close> without a buffer does return.
\<close>

lemma sharing_preserved:
  assumes so: "sorted_wrt (<) (map object_id (def_objects D))"
    and G: "Grid_ctor ext D = Inr G"
  shows "(\<forall>E. same_sharing (map (\<lambda>d. d_component d E) (def_objects D))
                            (map (\<lambda>g. g_component g E) (objects G)) \<and>
              (\<forall>p. p < length (g_heap G E)
                     \<longleftrightarrow> (\<exists>k < length (objects G). g_component (objects G ! k) E = Some p)) \<and>
              (\<forall>k a p. k < length (def_objects D) \<and> d_component (def_objects D ! k) E = Some a \<and>
                        g_component (objects G ! k) E = Some p \<longrightarrow>
                        gc_value (g_heap G E ! p) = dc_value (def_heap D E ! a) \<and>
                        gc_active (g_heap G E ! p) = dc_active (def_heap D E ! a))) \<and>
         (\<forall>paramIter D'. makeDefinition ext G paramIter = Inr D' \<longrightarrow>
            (\<forall>E. same_sharing (map (\<lambda>d. d_component d E) (def_objects D))
                               (map (\<lambda>d. d_component d E) (def_objects D')) \<and>
                  (\<forall>q. q < length (def_heap D' E)
                         \<longleftrightarrow> (\<exists>k < length (def_objects D'). d_component (def_objects D' ! k) E = Some q)) \<and>
                  (\<forall>k a p q. k < length (def_objects D) \<and> d_component (def_objects D ! k) E = Some a \<and>
                        g_component (objects G ! k) E = Some p \<and>
                        d_component (def_objects D' ! k) E = Some q \<longrightarrow>
                        dc_active (def_heap D' E ! q) = dc_active (def_heap D E ! a) \<and>
                        dc_value (def_heap D' E ! q) =
                          (case paramIter of
                             None \<Rightarrow> dc_value (def_heap D E ! a)
                           | Some buf \<Rightarrow>
                               if dc_active (def_heap D E ! a)
                               then take (SIZE ext E) (drop (nat (gc_offset (g_heap G E ! p))) buf)
                               else dc_value (def_heap D E ! a))))) \<and>
         (def_wcs D \<noteq> None \<longrightarrow> (\<exists>D'. makeDefinition ext G None = Inr D'))"
proof -
  note c = Grid_ctor_Inr_components[OF G]
  have fwd: "same_sharing (map (\<lambda>d. d_component d E) (def_objects D))
                            (map (\<lambda>g. g_component g E) (objects G))"
    and cp: "\<forall>k a p. k < length (def_objects D) \<and> d_component (def_objects D ! k) E = Some a \<and>
                        g_component (objects G ! k) E = Some p \<longrightarrow>
                        gc_value (g_heap G E ! p) = dc_value (def_heap D E ! a) \<and>
                        gc_active (g_heap G E ! p) = dc_active (def_heap D E ! a)" for E
  proof -
    from c(1)[of E] obtain U where U: "dedup_inv U (length (g_heap G E))"
      "\<forall>a p. U a = Some p \<longrightarrow>
             gc_value (g_heap G E ! p) = dc_value (def_heap D E ! a) \<and>
             gc_active (g_heap G E ! p) = dc_active (def_heap D E ! a)"
      "list_all2 (\<lambda>d g. shared_via U (d_component d E) (g_component g E)) (def_objects D) (objects G)"
      unfolding kind_ok_def by blast
    show "same_sharing (map (\<lambda>d. d_component d E) (def_objects D))
                            (map (\<lambda>g. g_component g E) (objects G))"
      by (rule shared_via_same_sharing[OF U(1) U(3)])
    show "\<forall>k a p. k < length (def_objects D) \<and> d_component (def_objects D ! k) E = Some a \<and>
                        g_component (objects G ! k) E = Some p \<longrightarrow>
                        gc_value (g_heap G E ! p) = dc_value (def_heap D E ! a) \<and>
                        gc_active (g_heap G E ! p) = dc_active (def_heap D E ! a)"
    proof (intro allI impI)
      fix k a p
      assume a: "k < length (def_objects D) \<and> d_component (def_objects D ! k) E = Some a \<and>
                        g_component (objects G ! k) E = Some p"
      then have "shared_via U (Some a) (Some p)" using list_all2_nthD[OF U(3), of k] by simp
      then have "U a = Some p" by (simp add: shared_via_def)
      then show "gc_value (g_heap G E ! p) = dc_value (def_heap D E ! a) \<and>
                        gc_active (g_heap G E ! p) = dc_active (def_heap D E ! a)"
        using U(2) by blast
    qed
  qed
  have ref: "\<forall>p. p < length (g_heap G E)
                     \<longleftrightarrow> (\<exists>k < length (objects G). g_component (objects G ! k) E = Some p)" for E
    using kind_ok_referenced[OF c(1)] by blast
  have sg: "sorted_wrt (<) (map object_id (objects G))" using so Grid_ctor_object_ids[OF G] by simp
  have lenG: "length (objects G) = length (def_objects D)"
    using list_all2_lengthD[OF c(4)] by simp
  have rev: "same_sharing (map (\<lambda>d. d_component d E) (def_objects D))
                               (map (\<lambda>d. d_component d E) (def_objects D')) \<and>
                  (\<forall>q. q < length (def_heap D' E)
                         \<longleftrightarrow> (\<exists>k < length (def_objects D'). d_component (def_objects D' ! k) E = Some q)) \<and>
                  (\<forall>k a p q. k < length (def_objects D) \<and> d_component (def_objects D ! k) E = Some a \<and>
                        g_component (objects G ! k) E = Some p \<and>
                        d_component (def_objects D' ! k) E = Some q \<longrightarrow>
                        dc_active (def_heap D' E ! q) = dc_active (def_heap D E ! a) \<and>
                        dc_value (def_heap D' E ! q) =
                          (case paramIter of
                             None \<Rightarrow> dc_value (def_heap D E ! a)
                           | Some buf \<Rightarrow>
                               if dc_active (def_heap D E ! a)
                               then take (SIZE ext E) (drop (nat (gc_offset (g_heap G E ! p))) buf)
                               else dc_value (def_heap D E ! a)))"
    if md: "makeDefinition ext G paramIter = Inr D'" for paramIter D' E
  proof -
    obtain w where w: "g_wcs G = Some w"
      using md makeDefinition_no_wcs[of G ext paramIter] by (cases "g_wcs G") auto
    from makeDefinition_stages(2)[OF w sg md] have r: "reverse_kind_ok ext G paramIter D' E" by blast
    then obtain U where U: "dedup_inv U (length (def_heap D' E))"
      "list_all2 (\<lambda>g d'. shared_via U (g_component g E) (d_component d' E)) (objects G) (def_objects D')"
      unfolding reverse_kind_ok_def by blast
    have "same_sharing (map (\<lambda>g. g_component g E) (objects G)) (map (\<lambda>d. d_component d E) (def_objects D'))"
      by (rule shared_via_same_sharing[OF U(1) U(2)])
    then have 1: "same_sharing (map (\<lambda>d. d_component d E) (def_objects D))
                               (map (\<lambda>d. d_component d E) (def_objects D'))"
      using fwd same_sharing_trans by blast
    have 2: "\<forall>q. q < length (def_heap D' E)
                         \<longleftrightarrow> (\<exists>k < length (def_objects D'). d_component (def_objects D' ! k) E = Some q)"
      using reverse_kind_ok_referenced[OF r] by blast
    have 3: "\<forall>k a p q. k < length (def_objects D) \<and> d_component (def_objects D ! k) E = Some a \<and>
                        g_component (objects G ! k) E = Some p \<and>
                        d_component (def_objects D' ! k) E = Some q \<longrightarrow>
                        dc_active (def_heap D' E ! q) = dc_active (def_heap D E ! a) \<and>
                        dc_value (def_heap D' E ! q) =
                          (case paramIter of
                             None \<Rightarrow> dc_value (def_heap D E ! a)
                           | Some buf \<Rightarrow>
                               if dc_active (def_heap D E ! a)
                               then take (SIZE ext E) (drop (nat (gc_offset (g_heap G E ! p))) buf)
                               else dc_value (def_heap D E ! a))"
    proof (intro allI impI)
      fix k a p q
      assume h: "k < length (def_objects D) \<and> d_component (def_objects D ! k) E = Some a \<and>
                        g_component (objects G ! k) E = Some p \<and>
                        d_component (def_objects D' ! k) E = Some q"
      then have kG: "k < length (objects G)" using lenG by simp
      have e: "def_heap D' E ! q =
           \<lparr>dc_value = new_value (SIZE ext E) paramIter (g_heap G E ! p),
            dc_active = gc_active (g_heap G E ! p)\<rparr>"
        by (rule reverse_kind_ok_component[OF r kG]) (use h in simp_all)
      have g: "gc_value (g_heap G E ! p) = dc_value (def_heap D E ! a)"
              "gc_active (g_heap G E ! p) = dc_active (def_heap D E ! a)"
        using cp[of E] h by blast+
      show "dc_active (def_heap D' E ! q) = dc_active (def_heap D E ! a) \<and>
                        dc_value (def_heap D' E ! q) =
                          (case paramIter of
                             None \<Rightarrow> dc_value (def_heap D E ! a)
                           | Some buf \<Rightarrow>
                               if dc_active (def_heap D E ! a)
                               then take (SIZE ext E) (drop (nat (gc_offset (g_heap G E ! p))) buf)
                               else dc_value (def_heap D E ! a))"
        unfolding e using g by (simp add: new_value_def split: option.splits)
    qed
    show ?thesis using 1 2 3 by blast
  qed
  have tot: "\<exists>D'. makeDefinition ext G None = Inr D'" if "def_wcs D \<noteq> None"
    by (rule Grid_makeDefinition_total[OF G so that]) simp
  show ?thesis using fwd ref cp rev tot by blast
qed

text \<open>
  On the example Definition: objects 0 and 1 share their radius and differ in their
  position, in the Definition, in the Grid and in the Definition made from the Grid.
\<close>

lemma sharing_preserved_example:
  "\<exists>G D'. Grid_ctor example_externals example_Definition = Inr G \<and>
          makeDefinition example_externals G None = Inr D' \<and>
          d_component (def_objects example_Definition ! 0) RADIUS
            = d_component (def_objects example_Definition ! 1) RADIUS \<and>
          g_component (objects G ! 0) RADIUS = g_component (objects G ! 1) RADIUS \<and>
          length (g_heap G RADIUS) = 1 \<and>
          d_component (def_objects D' ! 0) RADIUS = d_component (def_objects D' ! 1) RADIUS \<and>
          d_component (def_objects D' ! 0) RADIUS \<noteq> None \<and>
          g_component (objects G ! 0) POSITION \<noteq> g_component (objects G ! 1) POSITION \<and>
          d_component (def_objects D' ! 0) POSITION \<noteq> d_component (def_objects D' ! 1) POSITION"
proof -
  let ?D = example_Definition
  obtain G where all: "Grid_ctor example_externals ?D = Inr G \<and> length (g_heap G RADIUS) = 1 \<and>
       gc_offset (g_heap G RADIUS ! 0) = 2 \<and> gc_value (g_heap G RADIUS ! 0) = [5]"
    using example_Grid_radius by (rule exE)
  then have G: "Grid_ctor example_externals ?D = Inr G" and one: "length (g_heap G RADIUS) = 1"
    by simp_all
  have so: "sorted_wrt (<) (map object_id (def_objects ?D))" by (simp add: example_Definition_def)
  note t = sharing_preserved[OF so G]
  have "def_wcs ?D \<noteq> None" by (simp add: example_Definition_def)
  then obtain D' where D': "makeDefinition example_externals G None = Inr D'" using t by blast
  have fwd: "same_sharing (map (\<lambda>d. d_component d E) (def_objects ?D))
                            (map (\<lambda>g. g_component g E) (objects G))" for E
    using t by blast
  have rev: "same_sharing (map (\<lambda>d. d_component d E) (def_objects ?D))
                            (map (\<lambda>d. d_component d E) (def_objects D'))" for E
    using t D' by blast
  have len: "length (def_objects ?D) = 2" by (simp add: example_Definition_def)
  have lG: "length (objects G) = 2" using fwd[of RADIUS] len by (simp add: same_sharing_def)
  have lD: "length (def_objects D') = 2" using rev[of RADIUS] len by (simp add: same_sharing_def)
  have eqG: "(d_component (def_objects ?D ! i) E = d_component (def_objects ?D ! j) E)
           = (g_component (objects G ! i) E = g_component (objects G ! j) E)"
    if "i < 2" "j < 2" for i j E
    using fwd[of E] that len lG unfolding same_sharing_def by simp
  have eqD: "(d_component (def_objects ?D ! i) E = d_component (def_objects ?D ! j) E)
           = (d_component (def_objects D' ! i) E = d_component (def_objects D' ! j) E)"
    if "i < 2" "j < 2" for i j E
    using rev[of E] that len lD unfolding same_sharing_def by simp
  have noneD: "(d_component (def_objects ?D ! i) E = None) = (d_component (def_objects D' ! i) E = None)"
    if "i < 2" for i E
    using rev[of E] that len lD unfolding same_sharing_def by simp
  have dr: "d_component (def_objects ?D ! 0) RADIUS = d_component (def_objects ?D ! 1) RADIUS"
    and dr0: "d_component (def_objects ?D ! 0) RADIUS \<noteq> None"
    and dp: "d_component (def_objects ?D ! 0) POSITION \<noteq> d_component (def_objects ?D ! 1) POSITION"
    by (simp_all add: example_Definition_def)
  have 1: "g_component (objects G ! 0) RADIUS = g_component (objects G ! 1) RADIUS"
    using eqG[of 0 1 RADIUS] dr by simp
  have 2: "d_component (def_objects D' ! 0) RADIUS = d_component (def_objects D' ! 1) RADIUS"
    using eqD[of 0 1 RADIUS] dr by simp
  have 3: "d_component (def_objects D' ! 0) RADIUS \<noteq> None" using noneD[of 0 RADIUS] dr0 by simp
  have 4: "g_component (objects G ! 0) POSITION \<noteq> g_component (objects G ! 1) POSITION"
    using eqG[of 0 1 POSITION] dp by simp
  have 5: "d_component (def_objects D' ! 0) POSITION \<noteq> d_component (def_objects D' ! 1) POSITION"
    using eqD[of 0 1 POSITION] dp by simp
  show ?thesis using G D' dr one 1 2 3 4 5 by blast
qed

text \<open>
  The definitions to unfold when \<^verbatim>\<open>makeDefinition\<close> is evaluated on an example, and the
  round trip of the example Definition through a Grid and back with the buffer
  \<open>[10, 20, 30, 40, 50]\<close>: one radius component, shared by both objects, with the value
  read at offset 2; the inactive position keeps its value.
\<close>

lemmas eval_rev_defs = makeDefinition_def transferComponents_GD_def unique_insert_GD_def make_def
  readParameters_def definition_Object_def definition_Frame_def

lemma example_round_trip:
  "\<exists>G D'. Grid_ctor example_externals example_Definition = Inr G \<and>
          map (\<lambda>g. g_component g RADIUS) (objects G) = [Some 0, Some 0] \<and>
          g_heap G RADIUS = [\<lparr>gc_value = [5], gc_active = True, gc_offset = 2\<rparr>] \<and>
          makeDefinition example_externals G (Some [10, 20, 30, 40, 50]) = Inr D' \<and>
          map (\<lambda>d. d_component d RADIUS) (def_objects D') = [Some 0, Some 0] \<and>
          def_heap D' RADIUS = [\<lparr>dc_value = [30], dc_active = True\<rparr>] \<and>
          map (\<lambda>d. d_component d POSITION) (def_objects D') = [Some 0, Some 1] \<and>
          def_heap D' POSITION = [\<lparr>dc_value = [10, 20], dc_active = True\<rparr>,
                                  \<lparr>dc_value = [3, 4], dc_active = False\<rparr>]"
  by (simp add: eval_defs eval_rev_defs example_Definition_def)

text \<open>
  The example without coordinate systems builds a Grid in which both objects point to
  the one radius component.
\<close>

lemma plain_Grid_radius:
  "\<exists>G. Grid_ctor example_externals plain_Definition = Inr G \<and> g_wcs G = None \<and>
       map (\<lambda>g. g_component g RADIUS) (objects G) = [Some 0, Some 0] \<and>
       g_heap G RADIUS = [\<lparr>gc_value = [5], gc_active = True, gc_offset = 2\<rparr>] \<and>
       parameterCount G = 5"
  by (simp add: eval_defs plain_Definition_def example_Definition_def)

text \<open>
  Claim C1 does not hold for every Definition. In the example without coordinate
  systems the two objects share one radius component, and the Grid built from it has
  exactly one radius component (one offset, one value), to which both grid objects
  point; but \<^verbatim>\<open>makeDefinition\<close> on that Grid yields no Definition: line 81 dereferences the
  null \<^verbatim>\<open>_wcs\<close>, without a buffer and with a buffer of \<open>parameterCount\<close> scalars alike.
\<close>

theorem sharing_round_trip_fails_without_wcs:
  "map (\<lambda>d. d_component d RADIUS) (def_objects plain_Definition) = [Some 0, Some 0] \<and>
   (\<exists>G. Grid_ctor example_externals plain_Definition = Inr G \<and>
        map (\<lambda>g. g_component g RADIUS) (objects G) = [Some 0, Some 0] \<and>
        g_heap G RADIUS = [\<lparr>gc_value = [5], gc_active = True, gc_offset = 2\<rparr>] \<and>
        makeDefinition example_externals G None = Inl (Undefined NullDereference) \<and>
        makeDefinition example_externals G (Some [0, 0, 0, 0, 0]) = Inl (Undefined NullDereference))"
proof -
  obtain G where all: "Grid_ctor example_externals plain_Definition = Inr G \<and> g_wcs G = None \<and>
       map (\<lambda>g. g_component g RADIUS) (objects G) = [Some 0, Some 0] \<and>
       g_heap G RADIUS = [\<lparr>gc_value = [5], gc_active = True, gc_offset = 2\<rparr>] \<and>
       parameterCount G = 5"
    using plain_Grid_radius by (rule exE)
  then have w: "g_wcs G = None" by simp
  have d: "map (\<lambda>d. d_component d RADIUS) (def_objects plain_Definition) = [Some 0, Some 0]"
    by (simp add: plain_Definition_def example_Definition_def)
  have m1: "makeDefinition example_externals G None = Inl (Undefined NullDereference)"
    by (rule makeDefinition_no_wcs[OF w])
  have m2: "makeDefinition example_externals G (Some [0, 0, 0, 0, 0]) = Inl (Undefined NullDereference)"
    by (rule makeDefinition_no_wcs[OF w])
  have "Grid_ctor example_externals plain_Definition = Inr G \<and>
        map (\<lambda>g. g_component g RADIUS) (objects G) = [Some 0, Some 0] \<and>
        g_heap G RADIUS = [\<lparr>gc_value = [5], gc_active = True, gc_offset = 2\<rparr>] \<and>
        makeDefinition example_externals G None = Inl (Undefined NullDereference) \<and>
        makeDefinition example_externals G (Some [0, 0, 0, 0, 0]) = Inl (Undefined NullDereference)"
    using all m1 m2 by simp
  then have "\<exists>G. Grid_ctor example_externals plain_Definition = Inr G \<and>
        map (\<lambda>g. g_component g RADIUS) (objects G) = [Some 0, Some 0] \<and>
        g_heap G RADIUS = [\<lparr>gc_value = [5], gc_active = True, gc_offset = 2\<rparr>] \<and>
        makeDefinition example_externals G None = Inl (Undefined NullDereference) \<and>
        makeDefinition example_externals G (Some [0, 0, 0, 0, 0]) = Inl (Undefined NullDereference)"
    by (rule exI)
  with d show ?thesis by (rule conjI)
qed

section \<open>Reconstruction from a Grid without a coordinate system\<close>

text \<open>
  \<^verbatim>\<open>Grid::Grid\<close> accepts a Definition without a coordinate system when no frame has one:
  the example without coordinate systems builds a Grid, whose \<^verbatim>\<open>_wcs\<close> stays null.
\<close>

lemma plain_Grid_exists:
  "\<exists>G. Grid_ctor example_externals plain_Definition = Inr G \<and> g_wcs G = None \<and>
       length (frames G) = 2 \<and> length (objects G) = 2 \<and> length (sources G) = 4 \<and>
       parameterCount G = 5"
  by (simp add: eval_defs plain_Definition_def example_Definition_def)

text \<open>
  Claim C4. \<^verbatim>\<open>makeDefinition\<close> does not return for every Grid: on the Grid built from the
  example without coordinate systems, line 81 dereferences the null \<^verbatim>\<open>_wcs\<close>, without a
  buffer and with a buffer of \<open>parameterCount\<close> scalars alike.
\<close>

theorem makeDefinition_fails_without_wcs:
  "\<exists>G. Grid_ctor example_externals plain_Definition = Inr G \<and>
       makeDefinition example_externals G None = Inl (Undefined NullDereference) \<and>
       makeDefinition example_externals G (Some [0, 0, 0, 0, 0]) = Inl (Undefined NullDereference)"
proof -
  obtain G where all: "Grid_ctor example_externals plain_Definition = Inr G \<and> g_wcs G = None \<and>
       length (frames G) = 2 \<and> length (objects G) = 2 \<and> length (sources G) = 4 \<and>
       parameterCount G = 5"
    using plain_Grid_exists by (rule exE)
  then have G: "Grid_ctor example_externals plain_Definition = Inr G" and w: "g_wcs G = None"
    by simp_all
  show ?thesis using G makeDefinition_no_wcs[OF w] by blast
qed

section \<open>The registration step and the parameter buffer\<close>



end
